theory Spec2Isabelle
  imports Main
begin

section \<open>Constants of js/app.js\<close>

definition MAX_RETRY :: nat where
  "MAX_RETRY = 3"

definition TITLE_MAX_LENGTH :: nat where
  "TITLE_MAX_LENGTH = 50"

definition CONTENT_MAX_LENGTH :: nat where
  "CONTENT_MAX_LENGTH = 999"

definition STORAGE_KEY :: string where
  "STORAGE_KEY = ''notes''"

section \<open>Data model\<close>

text \<open>
  A JavaScript exception value: the constructor's name and the \<open>message\<close> property.
  \<open>withRetry\<close> inspects only \<open>error.message\<close>.
\<close>

datatype js_error = JsError (err_name: string) (message: string)

text \<open>
  The fields of a note document as the remote store holds them (\<open>newNote\<close> in
  \<open>handleRegister\<close> before its \<open>id\<close> is assigned), and a note of \<open>notesData\<close>, which
  carries the document id as well. \<open>MissCount\<close> is a JavaScript number that the program
  only ever increments by one from zero; the model keeps it as an integer, and adds to it
  as JavaScript does (\<open>js_add\<close> below).
\<close>

record doc_data =
  Title :: string
  Question :: string
  Answer :: string
  Explain :: string
  Date :: string
  MissCount :: int
  uid :: string

record Note = doc_data +
  note_id :: string

text \<open>The object literals handed to \<open>updateDoc\<close>: \<open>updatedData\<close> of \<open>handleEdit\<close> and
  \<open>{ MissCount: newMissCount }\<close> of \<open>handleMissMark\<close>.\<close>

datatype patch =
    EditPatch string string string string
  | MissPatch int

text \<open>
  The calls on the remote services that the closures passed to \<open>withRetry\<close> make. Every
  closure in js/app.js is of the form \<open>() => call(args)\<close>, so an operation is modelled by
  the request it issues together with what its promise does on each invocation.
\<close>

datatype request =
    SignInWithPopup
  | SignOut
  | GetDocs string
  | AddDoc doc_data
  | UpdateDoc string patch
  | DeleteDoc string

text \<open>
  What the promise returned by one invocation of an operation does within \<open>TIMEOUT_MS\<close>:
  it resolves, it rejects, or it is still pending when the timer fires. Real time is
  not modelled beyond this three-way outcome.
\<close>

datatype 'a outcome = Resolves 'a | Rejects js_error | Pending

text \<open>
  The module's global state. \<open>shown\<close> lists the codes passed to \<open>showError\<close>, oldest first
  (the five-second removal of a toast is not modelled); \<open>loading\<close> is the visibility of the
  loading overlay; \<open>sent\<close> lists the requests issued to the remote services, one entry per
  invocation of an operation. The modal and routing variables (\<open>currentPage\<close>,
  \<open>isModalOpen\<close>, \<open>hasUnsavedChanges\<close>) and the DOM are presentation and are left out.
\<close>

record app_state =
  currentUser :: "string option"
  notesData :: "Note list"
  retryBlocked :: bool
  usedProblemIds :: "string list"
  currentProblemId :: "string option"
  missMarkUsed :: bool
  localStorage :: "string \<rightharpoonup> string"
  shown :: "string list"
  loading :: bool
  sent :: "request list"

text \<open>The values the module's variables are initialised with, over an empty storage.\<close>

definition initial_state :: app_state where
  "initial_state =
     \<lparr>currentUser = None, notesData = [], retryBlocked = False, usedProblemIds = [],
      currentProblemId = None, missMarkUsed = False, localStorage = Map.empty, shown = [],
      loading = False, sent = []\<rparr>"

section \<open>Utilities\<close>

definition showError :: "string \<Rightarrow> app_state \<Rightarrow> app_state" where
  "showError code s = s\<lparr>shown := shown s @ [code]\<rparr>"

definition showLoading :: "app_state \<Rightarrow> app_state" where
  "showLoading s = s\<lparr>loading := True\<rparr>"

definition hideLoading :: "app_state \<Rightarrow> app_state" where
  "hideLoading s = s\<lparr>loading := False\<rparr>"

text \<open>\<open>new Error('timeout')\<close>, the rejection of the timer in \<open>fetchWithTimeout\<close>, and
  \<open>new Error('Retry blocked')\<close>, thrown by \<open>withRetry\<close> while the flag is set.\<close>

definition timeout_error :: js_error where
  "timeout_error = JsError ''Error'' ''timeout''"

definition blocked_error :: js_error where
  "blocked_error = JsError ''Error'' ''Retry blocked''"

text \<open>\<open>Promise.race\<close> of the operation's promise against the timer.\<close>

fun fetchWithTimeout :: "'a outcome \<Rightarrow> js_error + 'a" where
  "fetchWithTimeout (Resolves v) = Inr v"
| "fetchWithTimeout (Rejects e) = Inl e"
| "fetchWithTimeout Pending = Inl timeout_error"

text \<open>
  \<open>withRetry(operation, retryCount)\<close>. The operation is the pair of its request and of
  the outcome of its k-th invocation overall (k counts the entries of \<open>sent\<close>). Invoking it
  appends the request to \<open>sent\<close>. The result is \<open>Inl\<close> for a thrown error. Calls are
  taken one at a time: no other handler runs while a call waits for its promise.
\<close>

function withRetry ::
  "request \<Rightarrow> (nat \<Rightarrow> 'a outcome) \<Rightarrow> nat \<Rightarrow> app_state \<Rightarrow> (js_error + 'a) \<times> app_state" where
  "withRetry req operation retryCount s =
     (if retryBlocked s then (Inl blocked_error, showError ''E011'' s)
      else
        (case fetchWithTimeout (operation (length (sent s))) of
           Inr v \<Rightarrow> (Inr v, s\<lparr>sent := sent s @ [req]\<rparr>)
         | Inl error \<Rightarrow>
             if message error = ''timeout'' \<and> retryCount < MAX_RETRY - 1 then
               withRetry req operation (retryCount + 1)
                 (showLoading (showError ''E010'' (s\<lparr>sent := sent s @ [req]\<rparr>)))
             else if retryCount \<ge> MAX_RETRY - 1 then
               (Inl error, showError ''E011'' (s\<lparr>sent := sent s @ [req], retryBlocked := True\<rparr>))
             else (Inl error, s\<lparr>sent := sent s @ [req]\<rparr>)))"
  by pat_completeness auto
termination
  by (relation "measure (\<lambda>(req, operation, retryCount, s). MAX_RETRY - 1 - retryCount)") auto

declare withRetry.simps [simp del]

section \<open>Numbers\<close>

text \<open>
  A JavaScript number is a double. The model keeps the integer values as integers, and
  \<open>js_add\<close> is \<open>+\<close> on them: the exact sum rounded to the nearest double, which has 53
  significant bits, a tie going to the even significand. \<open>bit_length n\<close> is the number of
  binary digits of \<open>n\<close>. (From \<open>2^1024\<close> on a double is infinite; adding one to a double never
  gets there, and such magnitudes are outside the model.)
\<close>

fun bit_length :: "nat \<Rightarrow> nat" where
  "bit_length n = (if n = 0 then 0 else Suc (bit_length (n div 2)))"

declare bit_length.simps [simp del]

definition to_double :: "int \<Rightarrow> int" where
  "to_double x =
     (let a = nat \<bar>x\<bar>;
          k = bit_length a - 53;
          q = a div 2 ^ k;
          r = a mod 2 ^ k;
          m = (if 2 ^ k < 2 * r \<or> (2 * r = 2 ^ k \<and> odd q) then q + 1 else q)
      in sgn x * int (m * 2 ^ k))"

definition js_add :: "int \<Rightarrow> int \<Rightarrow> int" where
  "js_add a b = to_double (a + b)"

section \<open>Strings and JSON\<close>

text \<open>
  JavaScript strings are modelled as lists of 8-bit characters, one \<open>char\<close> per UTF-16
  code unit; code units above 255 are outside this model. \<open>trim\<close> is
  \<open>String.prototype.trim\<close>: it strips white space and line terminators, which among the
  first 256 code units are 9 to 13, 32 and 160.
\<close>

definition is_js_space :: "char \<Rightarrow> bool" where
  "is_js_space c = ((of_char c :: nat) \<in> {9, 10, 11, 12, 13, 32, 160})"

definition trim :: "string \<Rightarrow> string" where
  "trim s = rev (dropWhile is_js_space (rev (dropWhile is_js_space s)))"

text \<open>
  JSON values as \<open>JSON.parse\<close> returns them. An integer literal is \<open>JNum\<close>; a number
  literal with a fraction or an exponent is \<open>JDec m e\<close>, standing for m times ten to the
  power e. The rounding of a literal to a double is not modelled: a literal stands for the
  number it writes. Notes hold no \<open>JDec\<close>.
\<close>

datatype json =
    JNull
  | JBool bool
  | JNum int
  | JDec int int
  | JStr string
  | JArr "json list"
  | JObj "(string \<times> json) list"

definition dquote :: char where
  "dquote = CHR 0x22"

definition backslash :: char where
  "backslash = CHR 0x5C"

subsection \<open>\<open>JSON.stringify\<close>\<close>

text \<open>Integers are written in full. (JavaScript switches to exponent notation from
  \<open>10^21\<close> on; the counts of this program start at zero and grow by one.)\<close>

definition digit_char :: "nat \<Rightarrow> char" where
  "digit_char d = char_of (48 + d)"

fun show_nat :: "nat \<Rightarrow> string" where
  "show_nat n = (if n < 10 then [digit_char n] else show_nat (n div 10) @ [digit_char (n mod 10)])"

declare show_nat.simps [simp del]

definition show_int :: "int \<Rightarrow> string" where
  "show_int i = (if i < 0 then CHR ''-'' # show_nat (nat (- i)) else show_nat (nat i))"

definition hex_char :: "nat \<Rightarrow> char" where
  "hex_char d = (if d < 10 then char_of (48 + d) else char_of (87 + d))"

text \<open>\<open>QuoteJSONString\<close>: the two-character escapes, \<open>\u00xx\<close> for the other control
  characters, everything else as it is.\<close>

definition escape_char :: "char \<Rightarrow> string" where
  "escape_char c =
     (if c = dquote then [backslash, dquote]
      else if c = backslash then [backslash, backslash]
      else if c = CHR 0x08 then [backslash, CHR ''b'']
      else if c = CHR 0x0C then [backslash, CHR ''f'']
      else if c = CHR 0x0A then [backslash, CHR ''n'']
      else if c = CHR 0x0D then [backslash, CHR ''r'']
      else if c = CHR 0x09 then [backslash, CHR ''t'']
      else if (of_char c :: nat) < 32 then
        [backslash, CHR ''u'', CHR ''0'', CHR ''0'',
         hex_char ((of_char c :: nat) div 16), hex_char ((of_char c :: nat) mod 16)]
      else [c])"

definition quote :: "string \<Rightarrow> string" where
  "quote s = dquote # concat (map escape_char s) @ [dquote]"

fun commas :: "string list \<Rightarrow> string" where
  "commas [] = []"
| "commas [x] = x"
| "commas (x # y # zs) = x @ CHR '','' # commas (y # zs)"

text \<open>The serialisation without indentation. A \<open>JDec\<close> is written in exponent form; the
  program never serialises one.\<close>

fun show_json :: "json \<Rightarrow> string" where
  "show_json JNull = ''null''"
| "show_json (JBool b) = (if b then ''true'' else ''false'')"
| "show_json (JNum i) = show_int i"
| "show_json (JDec m e) = show_int m @ CHR ''e'' # show_int e"
| "show_json (JStr s) = quote s"
| "show_json (JArr js) = CHR ''['' # commas (map show_json js) @ '']''"
| "show_json (JObj kvs) =
     CHR ''{'' # commas (map (\<lambda>(k, v). quote k @ CHR '':'' # show_json v) kvs) @ ''}''"

subsection \<open>\<open>JSON.parse\<close>\<close>

definition is_ws :: "char \<Rightarrow> bool" where
  "is_ws c = (c = CHR 0x20 \<or> c = CHR 0x09 \<or> c = CHR 0x0A \<or> c = CHR 0x0D)"

definition skip_ws :: "string \<Rightarrow> string" where
  "skip_ws s = dropWhile is_ws s"

definition is_digit :: "char \<Rightarrow> bool" where
  "is_digit c = (48 \<le> (of_char c :: nat) \<and> (of_char c :: nat) \<le> 57)"

definition digits_val :: "string \<Rightarrow> nat" where
  "digits_val ds = foldl (\<lambda>a c. 10 * a + ((of_char c :: nat) - 48)) 0 ds"

definition hex_val :: "char \<Rightarrow> nat option" where
  "hex_val c =
     (let n = (of_char c :: nat) in
      if 48 \<le> n \<and> n \<le> 57 then Some (n - 48)
      else if 97 \<le> n \<and> n \<le> 102 then Some (n - 87)
      else if 65 \<le> n \<and> n \<le> 70 then Some (n - 55)
      else None)"

definition unescape :: "char \<Rightarrow> char option" where
  "unescape e =
     (if e = dquote then Some dquote
      else if e = backslash then Some backslash
      else if e = CHR ''/'' then Some (CHR ''/'')
      else if e = CHR ''b'' then Some (CHR 0x08)
      else if e = CHR ''f'' then Some (CHR 0x0C)
      else if e = CHR ''n'' then Some (CHR 0x0A)
      else if e = CHR ''r'' then Some (CHR 0x0D)
      else if e = CHR ''t'' then Some (CHR 0x09)
      else None)"

definition prepend :: "char \<Rightarrow> (string \<times> string) option \<Rightarrow> (string \<times> string) option" where
  "prepend c r = (case r of None \<Rightarrow> None | Some (s, rest) \<Rightarrow> Some (c # s, rest))"

text \<open>The characters of a string literal after its opening quote, up to the closing
  quote. A \<open>\uXXXX\<close> escape above 255 is reduced modulo 256 (see above).\<close>

fun lex_string :: "string \<Rightarrow> (string \<times> string) option" where
  "lex_string [] = None"
| "lex_string (c # cs) =
     (if c = dquote then Some ([], cs)
      else if c = backslash then
        (case cs of
           [] \<Rightarrow> None
         | e # r \<Rightarrow>
             if e = CHR ''u'' then
               (case r of
                  h1 # h2 # h3 # h4 # r' \<Rightarrow>
                    (case (hex_val h1, hex_val h2, hex_val h3, hex_val h4) of
                       (Some a, Some b, Some c', Some d) \<Rightarrow>
                         prepend (char_of (((a * 16 + b) * 16 + c') * 16 + d)) (lex_string r')
                     | _ \<Rightarrow> None)
                | _ \<Rightarrow> None)
             else
               (case unescape e of
                  None \<Rightarrow> None
                | Some x \<Rightarrow> prepend x (lex_string r)))
      else if (of_char c :: nat) < 32 then None
      else prepend c (lex_string cs))"

text \<open>A number literal: optional minus, integer part without a leading zero, optional
  fraction, optional exponent.\<close>

fun lex_frac :: "string \<Rightarrow> (string \<times> string) option" where
  "lex_frac [] = Some ([], [])"
| "lex_frac (c # r) =
     (if c = CHR ''.'' then
        (if takeWhile is_digit r = [] then None
         else Some (takeWhile is_digit r, dropWhile is_digit r))
      else Some ([], c # r))"

fun lex_exp :: "string \<Rightarrow> (int option \<times> string) option" where
  "lex_exp [] = Some (None, [])"
| "lex_exp (c # r) =
     (if c = CHR ''e'' \<or> c = CHR ''E'' then
        (let neg = (case r of [] \<Rightarrow> False | x # _ \<Rightarrow> x = CHR ''-'');
             r1 = (case r of [] \<Rightarrow> [] | x # t \<Rightarrow> if x = CHR ''-'' \<or> x = CHR ''+'' then t else r)
         in
         if takeWhile is_digit r1 = [] then None
         else Some (Some ((if neg then - 1 else 1) * int (digits_val (takeWhile is_digit r1))),
                    dropWhile is_digit r1))
      else Some (None, c # r))"

definition lex_number :: "string \<Rightarrow> (json \<times> string) option" where
  "lex_number s =
     (let neg = (case s of [] \<Rightarrow> False | c # _ \<Rightarrow> c = CHR ''-'');
          s1 = (if neg then tl s else s);
          ip = takeWhile is_digit s1;
          sg = (if neg then - 1 else 1)
      in
      if ip = [] \<or> (length ip > 1 \<and> hd ip = CHR ''0'') then None
      else
        (case lex_frac (dropWhile is_digit s1) of
           None \<Rightarrow> None
         | Some (fp, s3) \<Rightarrow>
             (case lex_exp s3 of
                None \<Rightarrow> None
              | Some (ex, s4) \<Rightarrow>
                  if fp = [] \<and> ex = None then Some (JNum (sg * int (digits_val ip)), s4)
                  else Some (JDec (sg * int (digits_val (ip @ fp)))
                               ((case ex of None \<Rightarrow> 0 | Some e \<Rightarrow> e) - int (length fp)),
                             s4))))"

definition literal :: "string \<Rightarrow> json \<Rightarrow> string \<Rightarrow> (json \<times> string) option" where
  "literal w v s = (if take (length w) s = w then Some (v, drop (length w) s) else None)"

text \<open>
  The recursive descent over values, array elements and object members. The first
  argument bounds the depth of the calls; every call but the one for the first element of
  an array consumes a character first, so twice the length of the text is enough: the
  bound never decides the result (\<open>JSON_parse_fuel\<close> below).
\<close>

fun parse_value :: "nat \<Rightarrow> string \<Rightarrow> (json \<times> string) option"
  and parse_elements :: "nat \<Rightarrow> string \<Rightarrow> (json list \<times> string) option"
  and parse_members :: "nat \<Rightarrow> string \<Rightarrow> ((string \<times> json) list \<times> string) option" where
  "parse_value 0 s = None"
| "parse_value (Suc n) [] = None"
| "parse_value (Suc n) (c # cs) =
     (if c = CHR ''['' then
        (case skip_ws cs of
           [] \<Rightarrow> None
         | d # r \<Rightarrow>
             if d = CHR '']'' then Some (JArr [], r)
             else (case parse_elements n (d # r) of
                     None \<Rightarrow> None
                   | Some (vs, r') \<Rightarrow> Some (JArr vs, r')))
      else if c = CHR ''{'' then
        (case skip_ws cs of
           [] \<Rightarrow> None
         | d # r \<Rightarrow>
             if d = CHR ''}'' then Some (JObj [], r)
             else (case parse_members n (d # r) of
                     None \<Rightarrow> None
                   | Some (kvs, r') \<Rightarrow> Some (JObj kvs, r')))
      else if c = dquote then
        (case lex_string cs of None \<Rightarrow> None | Some (str, r) \<Rightarrow> Some (JStr str, r))
      else if c = CHR ''-'' \<or> is_digit c then lex_number (c # cs)
      else if c = CHR ''n'' then literal ''null'' JNull (c # cs)
      else if c = CHR ''t'' then literal ''true'' (JBool True) (c # cs)
      else if c = CHR ''f'' then literal ''false'' (JBool False) (c # cs)
      else None)"
| "parse_elements 0 s = None"
| "parse_elements (Suc n) s =
     (case parse_value n s of
        None \<Rightarrow> None
      | Some (v, r) \<Rightarrow>
          (case skip_ws r of
             [] \<Rightarrow> None
           | d # r' \<Rightarrow>
               if d = CHR '','' then
                 (case parse_elements n (skip_ws r') of
                    None \<Rightarrow> None
                  | Some (vs, r'') \<Rightarrow> Some (v # vs, r''))
               else if d = CHR '']'' then Some ([v], r')
               else None))"
| "parse_members 0 s = None"
| "parse_members (Suc n) s =
     (case s of
        [] \<Rightarrow> None
      | q # cs \<Rightarrow>
          if q \<noteq> dquote then None
          else
            (case lex_string cs of
               None \<Rightarrow> None
             | Some (k, r) \<Rightarrow>
                 (case skip_ws r of
                    [] \<Rightarrow> None
                  | col # r1 \<Rightarrow>
                      if col \<noteq> CHR '':'' then None
                      else
                        (case parse_value n (skip_ws r1) of
                           None \<Rightarrow> None
                         | Some (v, r2) \<Rightarrow>
                             (case skip_ws r2 of
                                [] \<Rightarrow> None
                              | d # r3 \<Rightarrow>
                                  if d = CHR '','' then
                                    (case parse_members n (skip_ws r3) of
                                       None \<Rightarrow> None
                                     | Some (kvs, r4) \<Rightarrow> Some ((k, v) # kvs, r4))
                                  else if d = CHR ''}'' then Some ([(k, v)], r3)
                                  else None)))))"

text \<open>\<open>JSON.parse(text)\<close>: one value between optional white space, else a SyntaxError
  (\<open>None\<close>).\<close>

definition JSON_parse :: "string \<Rightarrow> json option" where
  "JSON_parse s =
     (case parse_value (2 * length s + 2) (skip_ws s) of
        None \<Rightarrow> None
      | Some (j, r) \<Rightarrow> if skip_ws r = [] then Some j else None)"

subsection \<open>Notes as JSON\<close>

text \<open>
  The object of a note. The order of its properties is not observable by the program
  (every read is by name), so one order is fixed here. Reading a property takes the last
  occurrence of its name, as \<open>JSON.parse\<close> does for a repeated key.
\<close>

definition json_of_note :: "Note \<Rightarrow> json" where
  "json_of_note n =
     JObj [(''id'', JStr (note_id n)),
           (''Title'', JStr (Title n)),
           (''Question'', JStr (Question n)),
           (''Answer'', JStr (Answer n)),
           (''Explain'', JStr (Explain n)),
           (''Date'', JStr (Date n)),
           (''MissCount'', JNum (MissCount n)),
           (''uid'', JStr (uid n))]"

definition get_str :: "(string \<times> json) list \<Rightarrow> string \<Rightarrow> string option" where
  "get_str kvs k = (case map_of (rev kvs) k of Some (JStr v) \<Rightarrow> Some v | _ \<Rightarrow> None)"

definition get_int :: "(string \<times> json) list \<Rightarrow> string \<Rightarrow> int option" where
  "get_int kvs k = (case map_of (rev kvs) k of Some (JNum v) \<Rightarrow> Some v | _ \<Rightarrow> None)"

fun note_of_json :: "json \<Rightarrow> Note option" where
  "note_of_json (JObj kvs) =
     Option.bind (get_str kvs ''id'') (\<lambda>i.
     Option.bind (get_str kvs ''Title'') (\<lambda>t.
     Option.bind (get_str kvs ''Question'') (\<lambda>q.
     Option.bind (get_str kvs ''Answer'') (\<lambda>a.
     Option.bind (get_str kvs ''Explain'') (\<lambda>x.
     Option.bind (get_str kvs ''Date'') (\<lambda>d.
     Option.bind (get_int kvs ''MissCount'') (\<lambda>m.
     Option.bind (get_str kvs ''uid'') (\<lambda>u.
       Some \<lparr>Title = t, Question = q, Answer = a, Explain = x, Date = d, MissCount = m,
             uid = u, note_id = i\<rparr>))))))))"
| "note_of_json _ = None"

fun notes_of_json :: "json \<Rightarrow> Note list option" where
  "notes_of_json (JArr js) = those (map note_of_json js)"
| "notes_of_json _ = None"

definition JSON_stringify :: "Note list \<Rightarrow> string" where
  "JSON_stringify ns = show_json (JArr (map json_of_note ns))"

section \<open>The local mirror\<close>

text \<open>\<open>localStorage.setItem\<close> always succeeds here: the quota of the storage is not
  modelled.\<close>

definition saveToLocalStorage :: "Note list \<Rightarrow> app_state \<Rightarrow> app_state" where
  "saveToLocalStorage data s =
     s\<lparr>localStorage := (localStorage s)(STORAGE_KEY \<mapsto> JSON_stringify data)\<rparr>"

text \<open>\<open>data ? JSON.parse(data) : []\<close>: \<open>null\<close> and the empty string are falsy; the
  SyntaxError of \<open>JSON.parse\<close> is not caught here.\<close>

definition syntax_error :: js_error where
  "syntax_error = JsError ''SyntaxError'' ''JSON.parse''"

definition getFromLocalStorage :: "app_state \<Rightarrow> js_error + json" where
  "getFromLocalStorage s =
     (case localStorage s STORAGE_KEY of
        None \<Rightarrow> Inr (JArr [])
      | Some data \<Rightarrow>
          if data = [] then Inr (JArr [])
          else (case JSON_parse data of None \<Rightarrow> Inl syntax_error | Some j \<Rightarrow> Inr j))"

definition clearLocalStorage :: "app_state \<Rightarrow> app_state" where
  "clearLocalStorage s = s\<lparr>localStorage := (localStorage s)(STORAGE_KEY := None)\<rparr>"

section \<open>The list page\<close>

definition type_error :: js_error where
  "type_error = JsError ''TypeError'' ''not an object''"

definition note_of_doc :: "string \<times> doc_data \<Rightarrow> Note" where
  "note_of_doc d =
     \<lparr>Title = Title (snd d), Question = Question (snd d), Answer = Answer (snd d),
      Explain = Explain (snd d), Date = Date (snd d), MissCount = MissCount (snd d),
      uid = uid (snd d), note_id = fst d\<rparr>"

text \<open>
  \<open>loadNotesFromFirestore\<close>. A snapshot is the list of its documents, each with its id
  and data. Reading \<open>currentUser.uid\<close> while no user is signed in throws a TypeError.
\<close>

definition loadNotesFromFirestore ::
  "(nat \<Rightarrow> (string \<times> doc_data) list outcome) \<Rightarrow> app_state \<Rightarrow> (js_error + unit) \<times> app_state" where
  "loadNotesFromFirestore getDocs s =
     (case currentUser s of
        None \<Rightarrow> (Inl type_error, s)
      | Some u \<Rightarrow>
          (case withRetry (GetDocs u) getDocs 0 s of
             (Inl e, s1) \<Rightarrow> (Inl e, s1)
           | (Inr snapshot, s1) \<Rightarrow>
               (Inr (),
                saveToLocalStorage (map note_of_doc snapshot)
                  (s1\<lparr>notesData := map note_of_doc snapshot\<rparr>))))"

text \<open>
  \<open>renderListPage\<close>, up to the rendering of the table. The collection is typed as a list
  of notes. A mirror text that parses to anything else is outside this data model: the
  code assigns the parsed value to \<open>notesData\<close> whatever it is, and the model ends such a
  run with a TypeError instead.
\<close>

definition renderListPage ::
  "(nat \<Rightarrow> (string \<times> doc_data) list outcome) \<Rightarrow> app_state \<Rightarrow> (js_error + unit) \<times> app_state" where
  "renderListPage getDocs s =
     (case loadNotesFromFirestore getDocs (showLoading s) of
        (Inr _, s1) \<Rightarrow> (Inr (), hideLoading s1)
      | (Inl e, s1) \<Rightarrow>
          (case getFromLocalStorage s1 of
             Inl e' \<Rightarrow> (Inl e', s1)
           | Inr j \<Rightarrow>
               (case notes_of_json j of
                  None \<Rightarrow> (Inl type_error, s1)
                | Some ns \<Rightarrow> (Inr (), hideLoading (s1\<lparr>notesData := ns\<rparr>)))))"

section \<open>Register, edit, delete\<close>

text \<open>The values of the four inputs of a modal form, before trimming.\<close>

record form =
  f_title :: string
  f_question :: string
  f_answer :: string
  f_explain :: string

text \<open>\<open>Array.prototype.findIndex\<close>, with \<open>None\<close> for -1.\<close>

fun findIndex :: "('a \<Rightarrow> bool) \<Rightarrow> 'a list \<Rightarrow> nat option" where
  "findIndex p [] = None"
| "findIndex p (x # xs) =
     (if p x then Some 0 else map_option Suc (findIndex p xs))"

text \<open>
  \<open>handleRegister\<close>; \<open>now\<close> is the value of \<open>getCurrentDateTime()\<close>, \<open>addDoc\<close> resolves to
  the id of the new document.
\<close>

definition handleRegister ::
  "(nat \<Rightarrow> string outcome) \<Rightarrow> string \<Rightarrow> form \<Rightarrow> app_state \<Rightarrow> (js_error + unit) \<times> app_state" where
  "handleRegister addDoc now f s =
     (let title = trim (f_title f); question = trim (f_question f);
          answer = trim (f_answer f); explain = trim (f_explain f)
      in
      if title = [] \<or> question = [] \<or> answer = [] then (Inr (), showError ''E007'' s)
      else if length title > TITLE_MAX_LENGTH then (Inr (), showError ''E012'' s)
      else if length question > CONTENT_MAX_LENGTH \<or> length answer > CONTENT_MAX_LENGTH
              \<or> length explain > CONTENT_MAX_LENGTH then (Inr (), showError ''E013'' s)
      else if list_ex (\<lambda>n. Title n = title) (notesData s) then (Inr (), showError ''E008'' s)
      else
        (case currentUser s of
           None \<Rightarrow> (Inl type_error, showLoading s)
         | Some u \<Rightarrow>
             (let newNote = \<lparr>Title = title, Question = question, Answer = answer,
                             Explain = explain, Date = now, MissCount = 0, uid = u\<rparr>
              in
              case withRetry (AddDoc newNote) addDoc 0 (showLoading s) of
                (Inr docRef_id, s1) \<Rightarrow>
                  (Inr (),
                   hideLoading
                     (saveToLocalStorage (notesData s1 @ [note_of_doc (docRef_id, newNote)])
                        (s1\<lparr>notesData := notesData s1 @ [note_of_doc (docRef_id, newNote)]\<rparr>)))
              | (Inl e, s1) \<Rightarrow> (Inr (), hideLoading (showError ''E004'' s1)))))"

text \<open>\<open>handleEdit(note)\<close>; the spread \<open>{ ...notesData[index], ...updatedData }\<close> overwrites
  the four properties of \<open>updatedData\<close> and keeps the others.\<close>

definition handleEdit :: "(nat \<Rightarrow> unit outcome) \<Rightarrow> Note \<Rightarrow> form \<Rightarrow> app_state \<Rightarrow> app_state" where
  "handleEdit updateDoc note f s =
     (let title = trim (f_title f); question = trim (f_question f);
          answer = trim (f_answer f); explain = trim (f_explain f)
      in
      if title = [] \<or> question = [] \<or> answer = [] then showError ''E007'' s
      else if length title > TITLE_MAX_LENGTH then showError ''E012'' s
      else if length question > CONTENT_MAX_LENGTH \<or> length answer > CONTENT_MAX_LENGTH
              \<or> length explain > CONTENT_MAX_LENGTH then showError ''E013'' s
      else if list_ex (\<lambda>n. Title n = title \<and> note_id n \<noteq> note_id note) (notesData s)
        then showError ''E008'' s
      else
        (case withRetry (UpdateDoc (note_id note) (EditPatch title question answer explain))
                updateDoc 0 (showLoading s) of
           (Inr _, s1) \<Rightarrow>
             hideLoading
               (case findIndex (\<lambda>n. note_id n = note_id note) (notesData s1) of
                  None \<Rightarrow> s1
                | Some index \<Rightarrow>
                    (let nd = (notesData s1)
                           [index := (notesData s1 ! index)
                              \<lparr>Title := title, Question := question, Answer := answer,
                               Explain := explain\<rparr>]
                     in saveToLocalStorage nd (s1\<lparr>notesData := nd\<rparr>)))
         | (Inl e, s1) \<Rightarrow> hideLoading (showError ''E005'' s1)))"

text \<open>\<open>handleDelete(note)\<close>; \<open>confirm\<close> is the value of the confirmation input.\<close>

definition handleDelete :: "(nat \<Rightarrow> unit outcome) \<Rightarrow> Note \<Rightarrow> string \<Rightarrow> app_state \<Rightarrow> app_state" where
  "handleDelete deleteDoc note confirm s =
     (let confirmTitle = trim confirm in
      if confirmTitle \<noteq> Title note then showError ''E009'' s
      else
        (case withRetry (DeleteDoc (note_id note)) deleteDoc 0 (showLoading s) of
           (Inr _, s1) \<Rightarrow>
             (let nd = filter (\<lambda>n. note_id n \<noteq> note_id note) (notesData s1)
              in hideLoading (saveToLocalStorage nd (s1\<lparr>notesData := nd\<rparr>)))
         | (Inl e, s1) \<Rightarrow> hideLoading (showError ''E006'' s1)))"

section \<open>The random drill\<close>

text \<open>
  The \<open>do ... while\<close> loop of \<open>renderRandomPage\<close>. Each element of \<open>draws\<close> stands for one
  value of \<open>Math.floor(Math.random() * availableNotes.length)\<close> and is reduced into the
  range of the indices. The loop has no bound in the source; \<open>None\<close> means that the given
  draws all hit the current problem.
\<close>

fun pick :: "nat list \<Rightarrow> Note list \<Rightarrow> string option \<Rightarrow> Note option" where
  "pick [] availableNotes cur = None"
| "pick (d # ds) availableNotes cur =
     (let randomNote = availableNotes ! (d mod length availableNotes) in
      if Some (note_id randomNote) = cur then pick ds availableNotes cur
      else Some randomNote)"

datatype page = EmptyPage | CompletePage | ProblemPage Note

definition renderRandomPage :: "nat list \<Rightarrow> app_state \<Rightarrow> (page \<times> app_state) option" where
  "renderRandomPage draws s =
     (if notesData s = [] then Some (EmptyPage, s)
      else
        (let availableNotes = filter (\<lambda>n. note_id n \<notin> set (usedProblemIds s)) (notesData s) in
         if availableNotes = [] then Some (CompletePage, s\<lparr>usedProblemIds := []\<rparr>)
         else
           (case (if length availableNotes = 1 then Some (hd availableNotes)
                  else pick draws availableNotes (currentProblemId s)) of
              None \<Rightarrow> None
            | Some randomNote \<Rightarrow>
                Some (ProblemPage randomNote,
                      s\<lparr>currentProblemId := Some (note_id randomNote),
                        usedProblemIds := usedProblemIds s @ [note_id randomNote],
                        missMarkUsed := False\<rparr>))))"

text \<open>\<open>handleMissMark(note)\<close>. \<open>note.MissCount || 0\<close> replaces a falsy count by zero, and
  \<open>newMissCount\<close> is the sum of that and one as JavaScript computes it.\<close>

definition handleMissMark :: "(nat \<Rightarrow> unit outcome) \<Rightarrow> Note \<Rightarrow> app_state \<Rightarrow> app_state" where
  "handleMissMark updateDoc note s =
     (if missMarkUsed s then s
      else
        (let newMissCount = js_add (if MissCount note = 0 then 0 else MissCount note) 1 in
         case withRetry (UpdateDoc (note_id note) (MissPatch newMissCount)) updateDoc 0
                (s\<lparr>missMarkUsed := True\<rparr>) of
           (Inr _, s1) \<Rightarrow>
             (case findIndex (\<lambda>n. note_id n = note_id note) (notesData s1) of
                None \<Rightarrow> s1
              | Some index \<Rightarrow>
                  (let nd = (notesData s1)
                         [index := (notesData s1 ! index)\<lparr>MissCount := newMissCount\<rparr>]
                   in saveToLocalStorage nd (s1\<lparr>notesData := nd\<rparr>)))
         | (Inl e, s1) \<Rightarrow> (showError ''E005'' s1)\<lparr>missMarkUsed := False\<rparr>))"

section \<open>Auxiliary notions for the statements\<close>

text \<open>
  The code of the first field check of \<open>handleRegister\<close> and \<open>handleEdit\<close> that a form
  fails (the checks before the title collision check, in the order of the source), and
  the note that the spread of \<open>handleEdit\<close> builds from a note and a form.
\<close>

definition fields_error :: "form \<Rightarrow> string option" where
  "fields_error f =
     (if trim (f_title f) = [] \<or> trim (f_question f) = [] \<or> trim (f_answer f) = []
        then Some ''E007''
      else if length (trim (f_title f)) > TITLE_MAX_LENGTH then Some ''E012''
      else if length (trim (f_question f)) > CONTENT_MAX_LENGTH
              \<or> length (trim (f_answer f)) > CONTENT_MAX_LENGTH
              \<or> length (trim (f_explain f)) > CONTENT_MAX_LENGTH then Some ''E013''
      else None)"

definition edited :: "form \<Rightarrow> Note \<Rightarrow> Note" where
  "edited f n =
     n\<lparr>Title := trim (f_title f), Question := trim (f_question f),
       Answer := trim (f_answer f), Explain := trim (f_explain f)\<rparr>"

text \<open>
  For the proof that \<open>JSON.parse\<close> reads back what \<open>JSON.stringify\<close> wrote: the text after
  a value inside a serialisation, the first character of a serialised value, and the
  text of one object member.
\<close>

definition follow :: "string \<Rightarrow> bool" where
  "follow r = (case r of [] \<Rightarrow> True | c # _ \<Rightarrow> c = CHR '','' \<or> c = CHR '']'' \<or> c = CHR ''}'')"

definition value_start :: "char \<Rightarrow> bool" where
  "value_start c =
     (c = CHR ''['' \<or> c = CHR ''{'' \<or> c = dquote \<or> c = CHR ''-'' \<or> is_digit c
      \<or> c = CHR ''n'' \<or> c = CHR ''t'' \<or> c = CHR ''f'')"

definition member_text :: "string \<times> json \<Rightarrow> string" where
  "member_text kv = quote (fst kv) @ CHR '':'' # show_json (snd kv)"

section \<open>Example data\<close>

definition algebra_doc :: doc_data where
  "algebra_doc =
     \<lparr>Title = ''Algebra'', Question = ''2 + 2'', Answer = ''4'', Explain = [],
      Date = ''2024-01-01T00:00:00.000Z'', MissCount = 0, uid = ''u1''\<rparr>"

definition algebra :: Note where
  "algebra =
     \<lparr>Title = ''Algebra'', Question = ''2 + 2'', Answer = ''4'', Explain = [],
      Date = ''2024-01-01T00:00:00.000Z'', MissCount = 0, uid = ''u1'', note_id = ''n1''\<rparr>"

definition geometry :: Note where
  "geometry =
     \<lparr>Title = ''Geometry'', Question = ''Angles of a triangle'', Answer = ''180'',
      Explain = ''degrees'', Date = ''2024-01-02T00:00:00.000Z'', MissCount = 2, uid = ''u1'',
      note_id = ''n2''\<rparr>"

text \<open>User \<open>u1\<close> is signed in and holds two notes, which the mirror holds as well.\<close>

definition example_state :: app_state where
  "example_state =
     saveToLocalStorage [algebra, geometry]
       (initial_state\<lparr>currentUser := Some ''u1'', notesData := [algebra, geometry]\<rparr>)"

text \<open>The same after three timeouts have set the circuit breaker.\<close>

definition blocked_state :: app_state where
  "blocked_state = example_state\<lparr>retryBlocked := True\<rparr>"

text \<open>The first note is on display in the random drill.\<close>

definition drill_state :: app_state where
  "drill_state =
     example_state\<lparr>currentProblemId := Some ''n1'', usedProblemIds := [''n1''],
       missMarkUsed := False\<rparr>"

text \<open>A form that repeats the title of the first note, and one that also leaves the
  question blank.\<close>

definition example_form :: form where
  "example_form =
     \<lparr>f_title = '' Algebra '', f_question = ''3 + 3'', f_answer = ''6'', f_explain = []\<rparr>"

definition incomplete_form :: form where
  "incomplete_form =
     \<lparr>f_title = ''Algebra'', f_question = '' '', f_answer = ''4'', f_explain = []\<rparr>"

text \<open>A storage whose value under \<open>notes\<close> was cut off after two characters.\<close>

definition corrupt_state :: app_state where
  "corrupt_state =
     initial_state\<lparr>currentUser := Some ''u1'', localStorage := [STORAGE_KEY \<mapsto> ''[{'']\<rparr>"

definition denied :: js_error where
  "denied = JsError ''FirebaseError'' ''permission-denied''"

section \<open>Lemmas on numbers\<close>

text \<open>
  An integer of magnitude below \<open>2^53\<close> is a double, so adding one to it is exact. At \<open>2^53\<close>
  the sum falls between two doubles and is rounded back.
\<close>

lemma bit_length_le: "bit_length n \<le> k \<longleftrightarrow> n < 2 ^ k"
proof (induction n arbitrary: k rule: bit_length.induct)
  case (1 n)
  show ?case
  proof (cases "n = 0")
    case True
    then show ?thesis by (simp add: bit_length.simps)
  next
    case False
    show ?thesis
    proof (cases k)
      case 0
      then show ?thesis using False by (simp add: bit_length.simps [of n])
    next
      case (Suc j)
      have "bit_length n \<le> Suc j \<longleftrightarrow> bit_length (n div 2) \<le> j"
        using False by (simp add: bit_length.simps [of n])
      also have "\<dots> \<longleftrightarrow> n div 2 < 2 ^ j"
        using 1 [OF False] by simp
      also have "\<dots> \<longleftrightarrow> n < 2 ^ Suc j"
        by auto
      finally show ?thesis using Suc by simp
    qed
  qed
qed

lemma to_double_small: "\<bar>x\<bar> < 2 ^ 53 \<Longrightarrow> to_double x = x"
proof -
  assume a: "\<bar>x\<bar> < 2 ^ 53"
  have "nat \<bar>x\<bar> < 2 ^ 53" using a by (simp add: nat_less_iff)
  then have "bit_length (nat \<bar>x\<bar>) \<le> 53" by (simp only: bit_length_le)
  then have k: "bit_length (nat \<bar>x\<bar>) - 53 = 0" by simp
  show ?thesis
    by (simp add: to_double_def Let_def k sgn_mult_abs)
qed

lemma bit_length_eq: "2 ^ k \<le> n \<Longrightarrow> n < 2 ^ Suc k \<Longrightarrow> bit_length n = Suc k"
  using bit_length_le [of n k] bit_length_le [of n "Suc k"] by simp

lemma to_double_limit: "to_double (2 ^ 53) = 2 ^ 53"
proof -
  have "bit_length (2 ^ 53) = Suc 53" by (rule bit_length_eq) simp_all
  then have "bit_length (nat \<bar>2 ^ 53 :: int\<bar>) - 53 = 1" by (simp add: nat_power_eq)
  then show ?thesis by (simp add: to_double_def Let_def)
qed

lemma js_add_exact: "\<bar>a\<bar> < 2 ^ 53 \<Longrightarrow> js_add a 1 = a + 1"
proof -
  assume a: "\<bar>a\<bar> < 2 ^ 53"
  show ?thesis
  proof (cases "a + 1 = 2 ^ 53")
    case True
    then show ?thesis using to_double_limit by (simp add: js_add_def)
  next
    case False
    then have "\<bar>a + 1\<bar> < 2 ^ 53" using a by simp
    then show ?thesis by (simp only: js_add_def to_double_small)
  qed
qed

lemma js_add_limit: "js_add (2 ^ 53) 1 = 2 ^ 53"
proof -
  have "bit_length (2 ^ 53 + 1) = Suc 53" by (rule bit_length_eq) simp_all
  then have "bit_length (nat \<bar>2 ^ 53 + 1 :: int\<bar>) - 53 = 1"
    by (simp add: nat_add_distrib nat_power_eq)
  then show ?thesis by (simp add: js_add_def to_double_def Let_def)
qed

section \<open>Lemmas on the executor\<close>

text \<open>\<open>withRetry\<close> changes only \<open>retryBlocked\<close>, the notifications, the overlay and \<open>sent\<close>.\<close>

lemma withRetry_frame:
  "notesData (snd (withRetry req operation retryCount s)) = notesData s
   \<and> localStorage (snd (withRetry req operation retryCount s)) = localStorage s
   \<and> missMarkUsed (snd (withRetry req operation retryCount s)) = missMarkUsed s
   \<and> currentUser (snd (withRetry req operation retryCount s)) = currentUser s
   \<and> usedProblemIds (snd (withRetry req operation retryCount s)) = usedProblemIds s
   \<and> currentProblemId (snd (withRetry req operation retryCount s)) = currentProblemId s"
proof (induction req operation retryCount s rule: withRetry.induct)
  case (1 req operation retryCount s)
  show ?case
  proof (cases "fetchWithTimeout (operation (length (sent s)))")
    case (Inl error)
    with 1 show ?thesis
      by (subst (1 2 3 4 5 6) withRetry.simps) (simp add: showError_def showLoading_def)
  next
    case (Inr v)
    then show ?thesis
      by (subst (1 2 3 4 5 6) withRetry.simps) (simp add: showError_def)
  qed
qed

text \<open>It sends its request a number of times, and at least once unless the flag is set.\<close>

lemma withRetry_sent:
  "\<exists>k. sent (snd (withRetry req operation retryCount s)) = sent s @ replicate k req
       \<and> (retryBlocked s \<longrightarrow> k = 0) \<and> (\<not> retryBlocked s \<longrightarrow> 0 < k)"
proof (induction req operation retryCount s rule: withRetry.induct)
  case (1 req operation retryCount s)
  show ?case
  proof (cases "retryBlocked s")
    case True
    then show ?thesis by (simp add: withRetry.simps showError_def)
  next
    case nb: False
    show ?thesis
    proof (cases "fetchWithTimeout (operation (length (sent s)))")
      case (Inr v)
      with nb have "sent (snd (withRetry req operation retryCount s)) = sent s @ replicate 1 req"
        by (simp add: withRetry.simps)
      with nb show ?thesis by blast
    next
      case (Inl error)
      show ?thesis
      proof (cases "message error = ''timeout'' \<and> retryCount < MAX_RETRY - 1")
        case True
        let ?s2 = "showLoading (showError ''E010'' (s\<lparr>sent := sent s @ [req]\<rparr>))"
        from 1 [OF nb Inl True] obtain k where
          k: "sent (snd (withRetry req operation (retryCount + 1) ?s2)) = sent ?s2 @ replicate k req"
          by blast
        have "withRetry req operation retryCount s = withRetry req operation (retryCount + 1) ?s2"
          using nb Inl True by (simp add: withRetry.simps [of _ _ retryCount s])
        with k have "sent (snd (withRetry req operation retryCount s)) = sent s @ replicate (Suc k) req"
          by (simp add: showError_def showLoading_def replicate_app_Cons_same)
        with nb show ?thesis by blast
      next
        case False
        with nb Inl have "sent (snd (withRetry req operation retryCount s)) = sent s @ replicate 1 req"
          by (auto simp add: withRetry.simps showError_def)
        with nb show ?thesis by blast
      qed
    qed
  qed
qed

text \<open>It returns a value only if the flag was clear, and leaves it clear then.\<close>

lemma withRetry_success:
  "fst (withRetry req operation retryCount s) = Inr v \<Longrightarrow>
     \<not> retryBlocked s \<and> \<not> retryBlocked (snd (withRetry req operation retryCount s))"
proof (induction req operation retryCount s rule: withRetry.induct)
  case (1 req operation retryCount s)
  show ?case
  proof (cases "retryBlocked s")
    case True
    with 1(2) show ?thesis by (simp add: withRetry.simps)
  next
    case nb: False
    show ?thesis
    proof (cases "fetchWithTimeout (operation (length (sent s)))")
      case (Inr v)
      with nb show ?thesis by (simp add: withRetry.simps)
    next
      case (Inl error)
      show ?thesis
      proof (cases "message error = ''timeout'' \<and> retryCount < MAX_RETRY - 1")
        case True
        let ?s2 = "showLoading (showError ''E010'' (s\<lparr>sent := sent s @ [req]\<rparr>))"
        have eq: "withRetry req operation retryCount s = withRetry req operation (retryCount + 1) ?s2"
          using nb Inl True by (simp add: withRetry.simps [of _ _ retryCount s])
        with 1(1) [OF nb Inl True] 1(2) nb show ?thesis by simp
      next
        case False
        with nb Inl 1(2) show ?thesis
          by (auto simp add: withRetry.simps split: if_splits)
      qed
    qed
  qed
qed

lemma withRetry_first_success:
  "\<not> retryBlocked s \<Longrightarrow> operation (length (sent s)) = Resolves v \<Longrightarrow>
     withRetry req operation retryCount s = (Inr v, s\<lparr>sent := sent s @ [req]\<rparr>)"
  by (simp add: withRetry.simps)

section \<open>Lemmas on the collection\<close>

lemma findIndex_Some:
  "findIndex p xs = Some i \<Longrightarrow> i < length xs \<and> p (xs ! i) \<and> (\<forall>j < i. \<not> p (xs ! j))"
proof (induction xs arbitrary: i)
  case Nil
  then show ?case by simp
next
  case (Cons x xs)
  show ?case
  proof (cases "p x")
    case True
    with Cons.prems show ?thesis by simp
  next
    case False
    with Cons.prems obtain k where k: "findIndex p xs = Some k" "i = Suc k" by auto
    from Cons.IH [OF k(1)] False k(2) show ?thesis
      by (auto simp: nth_Cons split: nat.splits)
  qed
qed

lemma findIndex_distinct:
  "distinct (map note_id xs) \<Longrightarrow> n \<in> set xs \<Longrightarrow>
     \<exists>i. findIndex (\<lambda>m. note_id m = note_id n) xs = Some i \<and> xs ! i = n"
proof (induction xs)
  case Nil
  then show ?case by simp
next
  case (Cons x xs)
  show ?case
  proof (cases "x = n")
    case True
    then show ?thesis by simp
  next
    case False
    with Cons.prems have n: "n \<in> set xs" by simp
    with Cons.prems have "note_id x \<noteq> note_id n" by auto
    moreover from Cons.IH n Cons.prems obtain i where
      "findIndex (\<lambda>m. note_id m = note_id n) xs = Some i" "xs ! i = n" by auto
    ultimately show ?thesis by simp
  qed
qed

lemma pick_mem: "availableNotes \<noteq> [] \<Longrightarrow> pick draws availableNotes cur = Some n \<Longrightarrow> n \<in> set availableNotes"
proof (induction draws)
  case Nil
  then show ?case by simp
next
  case (Cons d ds)
  have "d mod length availableNotes < length availableNotes"
    using Cons.prems(1) by simp
  then have "availableNotes ! (d mod length availableNotes) \<in> set availableNotes"
    by (rule nth_mem)
  with Cons show ?case
    by (auto simp add: Let_def split: if_splits)
qed

lemma renderRandomPage_problem:
  assumes "renderRandomPage draws s = Some (ProblemPage n, s')"
  shows "s' = s\<lparr>currentProblemId := Some (note_id n),
               usedProblemIds := usedProblemIds s @ [note_id n], missMarkUsed := False\<rparr>
         \<and> n \<in> set (notesData s)"
proof -
  let ?av = "filter (\<lambda>n. note_id n \<notin> set (usedProblemIds s)) (notesData s)"
  from assms have ne: "?av \<noteq> []"
    by (auto simp add: renderRandomPage_def Let_def split: if_splits)
  from assms have sel: "(if length ?av = 1 then Some (hd ?av) else pick draws ?av (currentProblemId s)) = Some n"
    by (auto simp add: renderRandomPage_def Let_def split: if_splits option.splits)
  have "n \<in> set ?av"
  proof (cases "length ?av = 1")
    case True
    with sel ne show ?thesis by (metis hd_in_set option.inject)
  next
    case False
    with sel have "pick draws ?av (currentProblemId s) = Some n" by simp
    from pick_mem [OF ne this] show ?thesis .
  qed
  then have mem: "n \<in> set (notesData s)" by simp
  from assms have "s' = s\<lparr>currentProblemId := Some (note_id n),
               usedProblemIds := usedProblemIds s @ [note_id n], missMarkUsed := False\<rparr>"
    by (auto simp add: renderRandomPage_def Let_def split: if_splits option.splits)
  with mem show ?thesis by simp
qed

lemma handleEdit_notesData:
  "notesData (handleEdit updateDoc note f s) =
     (if fields_error f = None
         \<and> \<not> list_ex (\<lambda>n. Title n = trim (f_title f) \<and> note_id n \<noteq> note_id note) (notesData s)
         \<and> fst (withRetry (UpdateDoc (note_id note)
                   (EditPatch (trim (f_title f)) (trim (f_question f)) (trim (f_answer f))
                      (trim (f_explain f)))) updateDoc 0 (showLoading s)) = Inr ()
      then (case findIndex (\<lambda>n. note_id n = note_id note) (notesData s) of
              None \<Rightarrow> notesData s
            | Some i \<Rightarrow> (notesData s)[i := edited f (notesData s ! i)])
      else notesData s)"
proof -
  let ?req = "UpdateDoc (note_id note)
      (EditPatch (trim (f_title f)) (trim (f_question f)) (trim (f_answer f)) (trim (f_explain f)))"
  obtain r s1 where w: "withRetry ?req updateDoc 0 (showLoading s) = (r, s1)"
    by (cases "withRetry ?req updateDoc 0 (showLoading s)")
  have fr: "notesData s1 = notesData s"
    using withRetry_frame [of ?req updateDoc 0 "showLoading s"] w by (simp add: showLoading_def)
  show ?thesis
    using w fr
    by (auto simp add: handleEdit_def fields_error_def Let_def showError_def hideLoading_def
        saveToLocalStorage_def edited_def split: sum.splits option.splits)
qed

section \<open>\<open>JSON.parse\<close> reads back what \<open>JSON.stringify\<close> wrote\<close>

subsection \<open>Numbers\<close>

lemma is_digit_digit_char: "d < 10 \<Longrightarrow> is_digit (digit_char d)"
  by (simp add: is_digit_def digit_char_def)

lemma digit_val_digit_char: "d < 10 \<Longrightarrow> (of_char (digit_char d) :: nat) - 48 = d"
  by (simp add: digit_char_def)

lemma show_nat_digits: "\<forall>c \<in> set (show_nat n). is_digit c"
proof (induction n rule: show_nat.induct)
  case (1 n)
  show ?case
  proof (cases "n < 10")
    case True
    then show ?thesis by (simp add: show_nat.simps [of n] is_digit_digit_char)
  next
    case False
    with 1 show ?thesis
      by (simp add: show_nat.simps [of n] is_digit_digit_char)
  qed
qed

lemma show_nat_nonempty: "show_nat n \<noteq> []"
  by (simp add: show_nat.simps [of n])

lemma digits_val_snoc: "digits_val (ds @ [c]) = 10 * digits_val ds + ((of_char c :: nat) - 48)"
  by (simp add: digits_val_def)

lemma digits_val_show_nat: "digits_val (show_nat n) = n"
proof (induction n rule: show_nat.induct)
  case (1 n)
  show ?case
  proof (cases "n < 10")
    case True
    then show ?thesis
      by (simp add: show_nat.simps [of n] digits_val_def digit_val_digit_char)
  next
    case False
    with 1 have "digits_val (show_nat (n div 10)) = n div 10" by simp
    with False show ?thesis
      by (simp add: show_nat.simps [of n] digits_val_snoc digit_val_digit_char)
  qed
qed

lemma show_nat_leading: "hd (show_nat n) = CHR ''0'' \<Longrightarrow> n = 0"
proof (induction n rule: show_nat.induct)
  case (1 n)
  show ?case
  proof (cases "n < 10")
    case True
    with 1(2) have "digit_char n = CHR ''0''" by (simp add: show_nat.simps [of n])
    then have "(of_char (digit_char n) :: nat) = of_char (CHR ''0'')" by simp
    with True show ?thesis by (simp add: digit_char_def)
  next
    case False
    with 1(2) have "hd (show_nat (n div 10)) = CHR ''0''"
      by (simp add: show_nat.simps [of n] show_nat_nonempty)
    with 1(1) False have "n div 10 = 0" by simp
    with False show ?thesis by simp
  qed
qed

lemma show_nat_no_leading_zero: "1 < length (show_nat n) \<Longrightarrow> hd (show_nat n) \<noteq> CHR ''0''"
proof
  assume len: "1 < length (show_nat n)" and "hd (show_nat n) = CHR ''0''"
  then have "n = 0" by (simp add: show_nat_leading)
  with len show False by (simp add: show_nat.simps [of 0])
qed

lemma takeWhile_digits:
  "\<forall>c \<in> set ds. is_digit c \<Longrightarrow> follow r \<Longrightarrow> takeWhile is_digit (ds @ r) = ds"
  by (cases r) (auto simp add: follow_def is_digit_def takeWhile_append)

lemma dropWhile_digits:
  "\<forall>c \<in> set ds. is_digit c \<Longrightarrow> follow r \<Longrightarrow> dropWhile is_digit (ds @ r) = r"
  by (cases r) (auto simp add: follow_def is_digit_def dropWhile_append)

lemma takeWhile_digits_stop:
  "\<forall>c \<in> set ds. is_digit c \<Longrightarrow> \<not> is_digit x \<Longrightarrow> takeWhile is_digit (ds @ x # r) = ds"
  by (simp add: takeWhile_append)

lemma dropWhile_digits_stop:
  "\<forall>c \<in> set ds. is_digit c \<Longrightarrow> \<not> is_digit x \<Longrightarrow> dropWhile is_digit (ds @ x # r) = x # r"
  by (simp add: dropWhile_append)

lemma lex_frac_follow: "follow r \<Longrightarrow> lex_frac r = Some ([], r)"
  by (cases r) (auto simp add: follow_def)

lemma lex_exp_follow: "follow r \<Longrightarrow> lex_exp r = Some (None, r)"
  by (cases r) (auto simp add: follow_def)

lemma lex_number_nat:
  assumes "follow r"
  shows "lex_number (show_nat n @ r) = Some (JNum (int n), r)"
proof -
  obtain c cs where sn: "show_nat n = c # cs"
    using show_nat_nonempty [of n] by (cases "show_nat n") auto
  have dig: "\<forall>c \<in> set (show_nat n). is_digit c" by (rule show_nat_digits)
  with sn have "is_digit c" by simp
  then have nm: "c \<noteq> CHR ''-''" by (auto simp add: is_digit_def)
  have tw: "takeWhile is_digit (show_nat n @ r) = show_nat n"
    and dw: "dropWhile is_digit (show_nat n @ r) = r"
    by (rule takeWhile_digits [OF dig assms], rule dropWhile_digits [OF dig assms])
  have lead: "\<not> (1 < length (show_nat n) \<and> hd (show_nat n) = CHR ''0'')"
    using show_nat_no_leading_zero [of n] by blast
  have neg: "(case show_nat n @ r of [] \<Rightarrow> False | c # _ \<Rightarrow> c = CHR ''-'') = False"
    using sn nm by simp
  show ?thesis
    unfolding lex_number_def neg Let_def
    using tw dw lead show_nat_nonempty [of n] assms
    by (simp add: lex_frac_follow lex_exp_follow digits_val_show_nat)
qed

lemma lex_number_int:
  assumes "follow r"
  shows "lex_number (show_int i @ r) = Some (JNum i, r)"
proof (cases "i < 0")
  case False
  then show ?thesis
    using lex_number_nat [OF assms, of "nat i"] by (simp add: show_int_def)
next
  case True
  let ?n = "nat (- i)"
  have dig: "\<forall>c \<in> set (show_nat ?n). is_digit c" by (rule show_nat_digits)
  have tw: "takeWhile is_digit (show_nat ?n @ r) = show_nat ?n"
    and dw: "dropWhile is_digit (show_nat ?n @ r) = r"
    by (rule takeWhile_digits [OF dig assms], rule dropWhile_digits [OF dig assms])
  have lead: "\<not> (1 < length (show_nat ?n) \<and> hd (show_nat ?n) = CHR ''0'')"
    using show_nat_no_leading_zero [of ?n] by blast
  show ?thesis
    using True tw dw lead show_nat_nonempty [of ?n] assms
    by (simp add: show_int_def lex_number_def Let_def lex_frac_follow lex_exp_follow
        digits_val_show_nat)
qed

lemma lex_exp_show_int:
  assumes "follow r"
  shows "lex_exp (CHR ''e'' # show_int e @ r) = Some (Some e, r)"
proof (cases "e < 0")
  case True
  let ?n = "nat (- e)"
  have dig: "\<forall>c \<in> set (show_nat ?n). is_digit c" by (rule show_nat_digits)
  have tw: "takeWhile is_digit (show_nat ?n @ r) = show_nat ?n"
    and dw: "dropWhile is_digit (show_nat ?n @ r) = r"
    by (rule takeWhile_digits [OF dig assms], rule dropWhile_digits [OF dig assms])
  show ?thesis
    using True tw dw show_nat_nonempty [of ?n]
    by (simp add: show_int_def Let_def digits_val_show_nat)
next
  case False
  let ?n = "nat e"
  obtain c cs where sn: "show_nat ?n = c # cs"
    using show_nat_nonempty [of ?n] by (cases "show_nat ?n") auto
  have dig: "\<forall>c \<in> set (show_nat ?n). is_digit c" by (rule show_nat_digits)
  with sn have "is_digit c" by simp
  then have nm: "c \<noteq> CHR ''-''" "c \<noteq> CHR ''+''" by (auto simp add: is_digit_def)
  have tw: "takeWhile is_digit (c # cs @ r) = c # cs"
    and dw: "dropWhile is_digit (c # cs @ r) = r"
    using takeWhile_digits [OF dig assms] dropWhile_digits [OF dig assms] sn by simp_all
  have "digits_val (c # cs) = ?n"
    using digits_val_show_nat [of ?n] sn by simp
  then show ?thesis
    using False sn nm tw dw
    by (simp add: show_int_def Let_def)
qed

lemma lex_number_dec:
  assumes "follow r"
  shows "lex_number (show_int m @ CHR ''e'' # show_int e @ r) = Some (JDec m e, r)"
proof -
  have ne: "\<not> is_digit (CHR ''e'')" by (simp add: is_digit_def)
  have fr: "lex_frac (CHR ''e'' # show_int e @ r) = Some ([], CHR ''e'' # show_int e @ r)"
    by simp
  note ex = lex_exp_show_int [OF assms, of e]
  show ?thesis
  proof (cases "m < 0")
    case True
    let ?n = "nat (- m)"
    have dig: "\<forall>c \<in> set (show_nat ?n). is_digit c" by (rule show_nat_digits)
    have tw: "takeWhile is_digit (show_nat ?n @ CHR ''e'' # show_int e @ r) = show_nat ?n"
      and dw: "dropWhile is_digit (show_nat ?n @ CHR ''e'' # show_int e @ r) = CHR ''e'' # show_int e @ r"
      by (rule takeWhile_digits_stop [OF dig ne], rule dropWhile_digits_stop [OF dig ne])
    have lead: "\<not> (Suc 0 < length (show_nat ?n) \<and> hd (show_nat ?n) = CHR ''0'')"
      using show_nat_no_leading_zero [of ?n] by auto
    have sm: "show_int m = CHR ''-'' # show_nat ?n"
      using True by (simp add: show_int_def)
    show ?thesis
      unfolding sm
      using True show_nat_nonempty [of ?n] lead
      by (simp add: lex_number_def Let_def tw dw fr ex digits_val_show_nat
          del: lex_frac.simps lex_exp.simps)
  next
    case False
    let ?n = "nat m"
    obtain c cs where sn: "show_nat ?n = c # cs"
      using show_nat_nonempty [of ?n] by (cases "show_nat ?n") auto
    have dig: "\<forall>c \<in> set (show_nat ?n). is_digit c" by (rule show_nat_digits)
    with sn have "is_digit c" by simp
    then have nm: "c \<noteq> CHR ''-''" by (auto simp add: is_digit_def)
    have tw: "takeWhile is_digit (show_nat ?n @ CHR ''e'' # show_int e @ r) = show_nat ?n"
      and dw: "dropWhile is_digit (show_nat ?n @ CHR ''e'' # show_int e @ r) = CHR ''e'' # show_int e @ r"
      by (rule takeWhile_digits_stop [OF dig ne], rule dropWhile_digits_stop [OF dig ne])
    have lead: "\<not> (Suc 0 < length (show_nat ?n) \<and> hd (show_nat ?n) = CHR ''0'')"
      using show_nat_no_leading_zero [of ?n] by auto
    have neg: "(case show_nat ?n @ CHR ''e'' # show_int e @ r of [] \<Rightarrow> False | c # _ \<Rightarrow> c = CHR ''-'') = False"
      using sn nm by simp
    have "lex_number (show_nat ?n @ CHR ''e'' # show_int e @ r) = Some (JDec m e, r)"
      unfolding lex_number_def neg Let_def
      using False show_nat_nonempty [of ?n] lead
      by (simp add: tw dw fr ex digits_val_show_nat del: lex_frac.simps lex_exp.simps)
    moreover have "show_int m = show_nat ?n"
      using False by (simp add: show_int_def)
    ultimately show ?thesis by simp
  qed
qed

subsection \<open>Strings\<close>

lemma hex_val_hex_char: "d < 16 \<Longrightarrow> hex_val (hex_char d) = Some d"
  by (simp add: hex_val_def hex_char_def Let_def)

lemma hex_val_zero: "hex_val (CHR ''0'') = Some 0"
  by (simp add: hex_val_def)

lemma lex_string_control:
  assumes "(of_char c :: nat) < 32"
  shows "lex_string (backslash # CHR ''u'' # CHR ''0'' # CHR ''0''
           # hex_char ((of_char c :: nat) div 16) # hex_char ((of_char c :: nat) mod 16) # rest) =
         prepend c (lex_string rest)"
proof -
  have a: "hex_val (hex_char ((of_char c :: nat) div 16)) = Some ((of_char c :: nat) div 16)"
    using assms by (simp add: hex_val_hex_char)
  have b: "hex_val (hex_char ((of_char c :: nat) mod 16)) = Some ((of_char c :: nat) mod 16)"
    by (simp add: hex_val_hex_char)
  have c: "char_of (((0 * 16 + 0) * 16 + (of_char c :: nat) div 16) * 16 + (of_char c :: nat) mod 16) = c"
    by simp
  show ?thesis
    using c by (simp add: a b hex_val_zero backslash_def dquote_def)
qed

lemma lex_string_escape: "lex_string (escape_char c @ rest) = prepend c (lex_string rest)"
proof (cases "(of_char c :: nat) < 32")
  case True
  consider "c = CHR 0x08" | "c = CHR 0x0C" | "c = CHR 0x0A" | "c = CHR 0x0D" | "c = CHR 0x09"
    | "c \<noteq> CHR 0x08" "c \<noteq> CHR 0x0C" "c \<noteq> CHR 0x0A" "c \<noteq> CHR 0x0D" "c \<noteq> CHR 0x09"
    by blast
  then show ?thesis
  proof cases
    case 6
    from True have "c \<noteq> dquote" "c \<noteq> backslash"
      by (auto simp add: dquote_def backslash_def)
    with 6 True show ?thesis
      using lex_string_control [OF True, of rest] by (simp add: escape_char_def)
  qed (simp_all add: escape_char_def unescape_def dquote_def backslash_def)
next
  case False
  show ?thesis
  proof (cases "c = dquote \<or> c = backslash")
    case True
    then show ?thesis
      by (auto simp add: escape_char_def unescape_def dquote_def backslash_def)
  next
    case nq: False
    from False have "c \<noteq> CHR 0x08" "c \<noteq> CHR 0x0C" "c \<noteq> CHR 0x0A" "c \<noteq> CHR 0x0D" "c \<noteq> CHR 0x09"
      by auto
    with False nq show ?thesis
      by (simp add: escape_char_def)
  qed
qed

lemma lex_string_quote:
  "lex_string (concat (map escape_char s) @ dquote # r) = Some (s, r)"
proof (induction s)
  case Nil
  then show ?case by simp
next
  case (Cons c s)
  then show ?case
    by (simp add: lex_string_escape prepend_def)
qed

subsection \<open>Values\<close>

lemma value_start_not_ws: "value_start c \<Longrightarrow> \<not> is_ws c"
  by (auto simp add: value_start_def is_ws_def is_digit_def dquote_def)

lemma value_start_not_close:
  "value_start c \<Longrightarrow> c \<noteq> CHR '']'' \<and> c \<noteq> CHR ''}'' \<and> c \<noteq> CHR '',''"
  by (auto simp add: value_start_def is_digit_def dquote_def)

lemma skip_ws_start: "value_start c \<Longrightarrow> skip_ws (c # cs) = c # cs"
  by (simp add: skip_ws_def value_start_not_ws)

lemma skip_ws_follow: "follow r \<Longrightarrow> skip_ws r = r"
  by (cases r) (auto simp add: follow_def skip_ws_def is_ws_def)

lemma follow_simps:
  "follow []" "follow (CHR '','' # r)" "follow (CHR '']'' # r)" "follow (CHR ''}'' # r)"
  by (simp_all add: follow_def)

lemma show_int_start: "\<exists>c cs. show_int i = c # cs \<and> (c = CHR ''-'' \<or> is_digit c)"
proof (cases "i < 0")
  case True
  then show ?thesis by (simp add: show_int_def)
next
  case False
  obtain c cs where sn: "show_nat (nat i) = c # cs"
    using show_nat_nonempty [of "nat i"] by (cases "show_nat (nat i)") auto
  with show_nat_digits [of "nat i"] have "is_digit c" by simp
  with sn False show ?thesis by (simp add: show_int_def)
qed

lemma show_json_start: "\<exists>c cs. show_json j = c # cs \<and> value_start c"
proof (cases j)
  case (JNum i)
  with show_int_start [of i] show ?thesis by (auto simp add: value_start_def)
next
  case (JDec m e)
  with show_int_start [of m] show ?thesis by (auto simp add: value_start_def)
qed (auto simp add: value_start_def quote_def)

lemma length_commas_Cons: "xs \<noteq> [] \<Longrightarrow> length (commas (x # xs)) = length x + 1 + length (commas xs)"
  by (cases xs) simp_all

lemma commas_Cons: "xs \<noteq> [] \<Longrightarrow> commas (x # xs) = x @ CHR '','' # commas xs"
  by (cases xs) simp_all

lemma show_json_JObj: "show_json (JObj kvs) = CHR ''{'' # commas (map member_text kvs) @ ''}''"
proof -
  have "(\<lambda>(k, v). quote k @ CHR '':'' # show_json v) = member_text"
    by (auto simp add: member_text_def fun_eq_iff)
  then show ?thesis by simp
qed

lemma parse_elements_show:
  assumes IH: "\<And>j r n. j \<in> set js \<Longrightarrow> follow r \<Longrightarrow> 2 * length (show_json j) \<le> n \<Longrightarrow>
                 parse_value n (show_json j @ r) = Some (j, r)"
    and "js \<noteq> []"
    and "2 * length (commas (map show_json js)) + 1 \<le> n"
  shows "parse_elements n (commas (map show_json js) @ CHR '']'' # r) = Some (js, r)"
  using assms
proof (induction js arbitrary: n)
  case Nil
  then show ?case by simp
next
  case (Cons j js)
  from Cons.prems(3) obtain m where n: "n = Suc m" by (cases n) auto
  show ?case
  proof (cases "js = []")
    case True
    have fuel: "2 * length (show_json j) \<le> m"
      using Cons.prems(3) n True by simp
    have pv: "parse_value m (show_json j @ CHR '']'' # r) = Some (j, CHR '']'' # r)"
      using Cons.prems(1) [of j "CHR '']'' # r" m] fuel by (simp add: follow_simps)
    show ?thesis
      using True pv by (simp add: n skip_ws_follow follow_simps)
  next
    case False
    let ?rest = "commas (map show_json js) @ CHR '']'' # r"
    have len: "length (commas (map show_json (j # js))) =
        length (show_json j) + 1 + length (commas (map show_json js))"
      using False by (simp add: length_commas_Cons)
    have fuel: "2 * length (show_json j) \<le> m" "2 * length (commas (map show_json js)) + 1 \<le> m"
      using Cons.prems(3) n len by simp_all
    have pv: "parse_value m (show_json j @ CHR '','' # ?rest) = Some (j, CHR '','' # ?rest)"
      using Cons.prems(1) [of j "CHR '','' # ?rest" m] fuel by (simp add: follow_simps)
    have rec: "parse_elements m ?rest = Some (js, r)"
      using Cons.IH [of m] Cons.prems(1) False fuel by simp
    obtain c cs where st: "commas (map show_json js) = c # cs" "value_start c"
    proof -
      obtain j' js' where "js = j' # js'" using False by (cases js) auto
      moreover obtain c cs where "show_json j' = c # cs" "value_start c"
        using show_json_start by blast
      ultimately have "\<exists>c cs. commas (map show_json js) = c # cs \<and> value_start c"
        by (cases js') auto
      then show ?thesis using that by blast
    qed
    have sk: "skip_ws ?rest = ?rest"
      using st by (simp add: skip_ws_start)
    have unfold_text: "commas (map show_json (j # js)) @ CHR '']'' # r = show_json j @ CHR '','' # ?rest"
      using False by (simp add: commas_Cons)
    show ?thesis
      unfolding unfold_text n
      using pv rec sk by (simp add: skip_ws_follow follow_simps)
  qed
qed

lemma parse_members_show:
  assumes IH: "\<And>kv r n. kv \<in> set kvs \<Longrightarrow> follow r \<Longrightarrow> 2 * length (show_json (snd kv)) \<le> n \<Longrightarrow>
                 parse_value n (show_json (snd kv) @ r) = Some (snd kv, r)"
    and "kvs \<noteq> []"
    and "2 * length (commas (map member_text kvs)) + 1 \<le> n"
  shows "parse_members n (commas (map member_text kvs) @ CHR ''}'' # r) = Some (kvs, r)"
  using assms
proof (induction kvs arbitrary: n)
  case Nil
  then show ?case by simp
next
  case (Cons kv kvs)
  obtain k v where kv: "kv = (k, v)" by (cases kv)
  from Cons.prems(3) obtain m where n: "n = Suc m" by (cases n) auto
  obtain c cs where sv: "show_json v = c # cs" "value_start c"
    using show_json_start by blast
  have mt: "member_text (k, v) @ x = dquote # concat (map escape_char k) @ dquote # CHR '':'' # show_json v @ x" for x
    by (simp add: member_text_def quote_def)
  have mlen: "length (show_json v) \<le> length (member_text kv)"
    by (simp add: member_text_def kv)
  have skv: "skip_ws (show_json v @ x) = show_json v @ x" for x
    using sv by (simp add: skip_ws_start)
  have colon: "skip_ws (CHR '':'' # x) = CHR '':'' # x" for x
    by (simp add: skip_ws_def is_ws_def)
  show ?case
  proof (cases "kvs = []")
    case True
    have fuel: "2 * length (show_json v) \<le> m"
      using Cons.prems(3) n True mlen by simp
    have pv: "parse_value m (show_json v @ CHR ''}'' # r) = Some (v, CHR ''}'' # r)"
      using Cons.prems(1) [of kv "CHR ''}'' # r" m] fuel by (simp add: follow_simps kv)
    show ?thesis
      using True pv
      by (simp add: n mt lex_string_quote colon skv skip_ws_follow follow_simps kv)
  next
    case False
    let ?rest = "commas (map member_text kvs) @ CHR ''}'' # r"
    have len: "length (commas (map member_text (kv # kvs))) =
        length (member_text kv) + 1 + length (commas (map member_text kvs))"
      using False by (simp add: length_commas_Cons)
    have fuel: "2 * length (show_json v) \<le> m" "2 * length (commas (map member_text kvs)) + 1 \<le> m"
      using Cons.prems(3) n len mlen by simp_all
    have pv: "parse_value m (show_json v @ CHR '','' # ?rest) = Some (v, CHR '','' # ?rest)"
      using Cons.prems(1) [of kv "CHR '','' # ?rest" m] fuel by (simp add: follow_simps kv)
    have rec: "parse_members m ?rest = Some (kvs, r)"
      using Cons.IH [of m] Cons.prems(1) False fuel by simp
    have sk: "skip_ws ?rest = ?rest"
    proof -
      obtain kv' kvs' where "kvs = kv' # kvs'" using False by (cases kvs) auto
      then have "\<exists>cs. commas (map member_text kvs) = dquote # cs"
        by (cases kvs') (auto simp add: member_text_def quote_def)
      then show ?thesis
        by (auto simp add: skip_ws_def is_ws_def dquote_def)
    qed
    have unfold_text: "commas (map member_text (kv # kvs)) @ CHR ''}'' # r = member_text kv @ CHR '','' # ?rest"
      using False by (simp add: commas_Cons)
    show ?thesis
      unfolding unfold_text n
      using pv rec sk
      by (simp add: mt lex_string_quote colon skv skip_ws_follow follow_simps kv)
  qed
qed

lemma parse_value_show:
  "follow r \<Longrightarrow> 2 * length (show_json j) \<le> n \<Longrightarrow> parse_value n (show_json j @ r) = Some (j, r)"
proof (induction j arbitrary: r n)
  case JNull
  then obtain m where "n = Suc m" by (cases n) auto
  then show ?case by (simp add: literal_def dquote_def is_digit_def)
next
  case (JBool b)
  then obtain m where "n = Suc m" by (cases n) (auto split: if_splits)
  then show ?case by (simp add: literal_def dquote_def is_digit_def)
next
  case (JNum i)
  obtain c cs where st: "show_int i = c # cs" "c = CHR ''-'' \<or> is_digit c"
    using show_int_start by blast
  with JNum obtain m where n: "n = Suc m" by (cases n) auto
  have "c \<noteq> CHR ''['' \<and> c \<noteq> CHR ''{'' \<and> c \<noteq> dquote"
    using st(2) by (auto simp add: is_digit_def dquote_def)
  then have "parse_value (Suc m) (c # cs @ r) = lex_number (c # cs @ r)"
    using st(2) by simp
  then show ?case
    using lex_number_int [OF JNum(1), of i] st(1) n by simp
next
  case (JDec m' e)
  obtain c cs where st: "show_int m' = c # cs" "c = CHR ''-'' \<or> is_digit c"
    using show_int_start by blast
  with JDec obtain m where n: "n = Suc m" by (cases n) auto
  have "c \<noteq> CHR ''['' \<and> c \<noteq> CHR ''{'' \<and> c \<noteq> dquote"
    using st(2) by (auto simp add: is_digit_def dquote_def)
  then have "parse_value (Suc m) (c # cs @ x) = lex_number (c # cs @ x)" for x
    using st(2) by simp
  then show ?case
    using lex_number_dec [OF JDec(1), of m' e] st(1) n by simp
next
  case (JStr s)
  then obtain m where n: "n = Suc m" by (cases n) (auto simp add: quote_def)
  show ?case
    by (simp add: n quote_def lex_string_quote dquote_def [symmetric])
       (simp add: dquote_def)
next
  case (JArr js)
  then obtain m where n: "n = Suc m" by (cases n) auto
  show ?case
  proof (cases "js = []")
    case True
    then show ?thesis by (simp add: n skip_ws_def is_ws_def)
  next
    case False
    have fuel: "2 * length (commas (map show_json js)) + 1 \<le> m"
      using JArr.prems(2) n by simp
    have pe: "parse_elements m (commas (map show_json js) @ CHR '']'' # r) = Some (js, r)"
      using parse_elements_show [where js = js and r = r and n = m] JArr.IH False fuel by blast
    obtain c cs where st: "commas (map show_json js) = c # cs" "value_start c"
    proof -
      obtain j' js' where "js = j' # js'" using False by (cases js) auto
      moreover obtain c cs where "show_json j' = c # cs" "value_start c"
        using show_json_start by blast
      ultimately have "\<exists>c cs. commas (map show_json js) = c # cs \<and> value_start c"
        by (cases js') auto
      then show ?thesis using that by blast
    qed
    show ?thesis
      using pe st value_start_not_close [OF st(2)]
      by (simp add: n skip_ws_start)
  qed
next
  case (JObj kvs)
  then obtain m where n: "n = Suc m" by (cases n) auto
  show ?case
  proof (cases "kvs = []")
    case True
    then show ?thesis by (simp add: n skip_ws_def is_ws_def)
  next
    case False
    have fuel: "2 * length (commas (map member_text kvs)) + 1 \<le> m"
      using JObj.prems(2) n unfolding show_json_JObj by simp
    have IH: "parse_value n (show_json (snd kv) @ r) = Some (snd kv, r)"
      if "kv \<in> set kvs" "follow r" "2 * length (show_json (snd kv)) \<le> n" for kv r n
      using JObj.IH [of kv "snd kv" r n] that by (cases kv) auto
    have pm: "parse_members m (commas (map member_text kvs) @ CHR ''}'' # r) = Some (kvs, r)"
      using parse_members_show [where kvs = kvs and r = r and n = m] IH False fuel by blast
    obtain cs where st: "commas (map member_text kvs) = dquote # cs"
    proof -
      obtain kv' kvs' where "kvs = kv' # kvs'" using False by (cases kvs) auto
      then have "\<exists>cs. commas (map member_text kvs) = dquote # cs"
        by (cases kvs') (auto simp add: member_text_def quote_def)
      then show ?thesis using that by blast
    qed
    have dq: "skip_ws (dquote # x) = dquote # x" "dquote \<noteq> CHR ''}''" for x
      by (simp_all add: skip_ws_def is_ws_def dquote_def)
    show ?thesis
      unfolding show_json_JObj
      using pm st dq by (simp add: n)
  qed
qed

lemma JSON_parse_show: "JSON_parse (show_json j) = Some j"
proof -
  obtain c cs where st: "show_json j = c # cs" "value_start c"
    using show_json_start by blast
  have "parse_value (2 * length (show_json j) + 2) (show_json j @ []) = Some (j, [])"
    by (rule parse_value_show) (simp_all add: follow_simps)
  then show ?thesis
    using st by (simp add: JSON_parse_def skip_ws_start) (simp add: skip_ws_def)
qed

subsection \<open>The bound on the depth\<close>

text \<open>
  Whatever \<open>parse_value\<close> returns under some bound, it returns under every bound of at
  least twice the number of characters it consumed. So \<open>JSON_parse\<close> fails only on a
  text that the grammar rejects.
\<close>

lemma length_skip_ws: "length (skip_ws s) \<le> length s"
  by (simp add: skip_ws_def length_dropWhile_le)

lemma prepend_Some: "prepend c x = Some (s, r) \<Longrightarrow> \<exists>s'. x = Some (s', r)"
  by (auto simp add: prepend_def split: option.splits)

lemma lex_string_shorter: "lex_string cs = Some (s, r) \<Longrightarrow> length r < length cs"
proof (induction "length cs" arbitrary: cs s rule: less_induct)
  case less
  from less.prems obtain c t where cs: "cs = c # t" by (cases cs) auto
  have "r = t \<or> (\<exists>t' s'. length t' < length cs \<and> lex_string t' = Some (s', r))"
  proof (cases "c = dquote")
    case True
    with less.prems cs show ?thesis by simp
  next
    case nq: False
    show ?thesis
    proof (cases "c = backslash")
      case False
      with nq less.prems cs obtain s' where "lex_string t = Some (s', r)"
        by (auto split: if_splits dest: prepend_Some)
      with cs show ?thesis by auto
    next
      case bs: True
      from less.prems nq bs cs obtain e r0 where t: "t = e # r0"
        by (cases t) auto
      show ?thesis
      proof (cases "e = CHR ''u''")
        case True
        from less.prems nq bs cs t True obtain h1 h2 h3 h4 r' where r0: "r0 = h1 # h2 # h3 # h4 # r'"
          by (auto split: list.splits)
        with less.prems nq bs cs t True obtain s' where "lex_string r' = Some (s', r)"
          by (auto split: option.splits dest: prepend_Some)
        with cs t r0 show ?thesis by auto
      next
        case False
        with less.prems nq bs cs t obtain s' where "lex_string r0 = Some (s', r)"
          by (auto split: option.splits dest: prepend_Some)
        with cs t show ?thesis by auto
      qed
    qed
  qed
  then show ?case
  proof
    assume "r = t"
    with cs show ?thesis by simp
  next
    assume "\<exists>t' s'. length t' < length cs \<and> lex_string t' = Some (s', r)"
    then obtain t' s' where t': "length t' < length cs" "lex_string t' = Some (s', r)" by blast
    from less.hyps [OF t'] t'(1) show ?thesis by simp
  qed
qed

lemma lex_frac_shorter: "lex_frac x = Some (fp, r) \<Longrightarrow> length r \<le> length x"
  by (cases x) (auto split: if_splits simp add: length_dropWhile_le le_SucI)

lemma lex_exp_shorter: "lex_exp x = Some (e, r) \<Longrightarrow> length r \<le> length x"
proof (cases x)
  case Nil
  then show "lex_exp x = Some (e, r) \<Longrightarrow> length r \<le> length x" by simp
next
  case (Cons c t)
  assume a: "lex_exp x = Some (e, r)"
  show "length r \<le> length x"
  proof (cases "c = CHR ''e'' \<or> c = CHR ''E''")
    case False
    with a Cons show ?thesis by auto
  next
    case True
    let ?r1 = "case t of [] \<Rightarrow> [] | x # t' \<Rightarrow> if x = CHR ''-'' \<or> x = CHR ''+'' then t' else t"
    from a Cons True have "r = dropWhile is_digit ?r1"
      by (auto simp add: Let_def split: if_splits)
    moreover have "length ?r1 \<le> length t" by (auto split: list.splits)
    moreover have "length (dropWhile is_digit ?r1) \<le> length ?r1" by (rule length_dropWhile_le)
    ultimately show ?thesis using Cons by simp
  qed
qed

lemma dropWhile_shorter: "takeWhile P xs \<noteq> [] \<Longrightarrow> length (dropWhile P xs) < length xs"
  by (cases xs) (auto split: if_splits simp add: less_Suc_eq_le length_dropWhile_le)

lemma lex_number_shorter: "lex_number s = Some (j, r) \<Longrightarrow> length r < length s"
proof -
  assume a: "lex_number s = Some (j, r)"
  let ?neg = "case s of [] \<Rightarrow> False | c # _ \<Rightarrow> c = CHR ''-''"
  let ?s1 = "if ?neg then tl s else s"
  from a have ip: "takeWhile is_digit ?s1 \<noteq> []"
    by (auto simp add: lex_number_def Let_def split: if_splits)
  from a ip obtain fp s3 where fr: "lex_frac (dropWhile is_digit ?s1) = Some (fp, s3)"
    by (auto simp add: lex_number_def Let_def split: if_splits option.splits)
  from a ip fr obtain ex where ex: "lex_exp s3 = Some (ex, r)"
    by (auto simp add: lex_number_def Let_def split: if_splits option.splits)
  have "length r \<le> length s3" using lex_exp_shorter [OF ex] .
  also have "\<dots> \<le> length (dropWhile is_digit ?s1)" using lex_frac_shorter [OF fr] .
  also have "\<dots> < length ?s1" using dropWhile_shorter [OF ip] .
  also have "\<dots> \<le> length s" by simp
  finally show ?thesis .
qed

lemma literal_shorter: "literal w v s = Some (j, r) \<Longrightarrow> w \<noteq> [] \<Longrightarrow> length r < length s"
  by (cases s) (auto simp add: literal_def split: if_splits)

lemma parse_value_atom:
  "c \<noteq> CHR ''['' \<Longrightarrow> c \<noteq> CHR ''{'' \<Longrightarrow> parse_value (Suc n) (c # cs) = parse_value (Suc m) (c # cs)"
  by simp

lemma parse_value_atom_shorter:
  assumes "c \<noteq> CHR ''[''" "c \<noteq> CHR ''{''" "parse_value (Suc n) (c # cs) = Some (j, r)"
  shows "length r < length (c # cs)"
proof -
  consider (str) "c = dquote" | (num) "c \<noteq> dquote" "c = CHR ''-'' \<or> is_digit c"
    | (lit) "c \<noteq> dquote" "\<not> (c = CHR ''-'' \<or> is_digit c)"
    by blast
  then show ?thesis
  proof cases
    case str
    with assms obtain s' where "lex_string cs = Some (s', r)"
      by (auto split: option.splits)
    from lex_string_shorter [OF this] show ?thesis by simp
  next
    case num
    with assms have "lex_number (c # cs) = Some (j, r)" by auto
    from lex_number_shorter [OF this] show ?thesis .
  next
    case lit
    with assms have "literal ''null'' JNull (c # cs) = Some (j, r)
        \<or> literal ''true'' (JBool True) (c # cs) = Some (j, r)
        \<or> literal ''false'' (JBool False) (c # cs) = Some (j, r)"
      by (auto split: if_splits)
    then show ?thesis by (auto dest: literal_shorter)
  qed
qed

lemma parse_fuel:
  "(parse_value n s = Some (j, r) \<longrightarrow>
      length r < length s \<and>
      (\<forall>m. 2 * (length s - length r) \<le> m \<longrightarrow> parse_value m s = Some (j, r)))
   \<and> (parse_elements n s = Some (js, r) \<longrightarrow>
      length r < length s \<and>
      (\<forall>m. 2 * (length s - length r) \<le> m + 1 \<longrightarrow> parse_elements m s = Some (js, r)))
   \<and> (parse_members n s = Some (kvs, r) \<longrightarrow>
      length r < length s \<and>
      (\<forall>m. 2 * (length s - length r) \<le> m + 1 \<longrightarrow> parse_members m s = Some (kvs, r)))"
proof (induction n arbitrary: s j r js kvs)
  case 0
  show ?case by simp
next
  case (Suc n)
  note IH_v = Suc.IH [THEN conjunct1, rule_format]
  note IH_e = Suc.IH [THEN conjunct2, THEN conjunct1, rule_format]
  note IH_m = Suc.IH [THEN conjunct2, THEN conjunct2, rule_format]
  have val: "length r < length s \<and>
      (\<forall>m. 2 * (length s - length r) \<le> m \<longrightarrow> parse_value m s = Some (j, r))"
    if pv: "parse_value (Suc n) s = Some (j, r)"
  proof -
    from pv obtain c cs where s: "s = c # cs" by (cases s) auto
    show ?thesis
    proof (cases "c = CHR ''['' \<or> c = CHR ''{''")
      case False
      then have nb: "c \<noteq> CHR ''[''" "c \<noteq> CHR ''{''" by auto
      have len: "length r < length s"
        using parse_value_atom_shorter [OF nb] pv s by simp
      have "parse_value m s = Some (j, r)" if "2 * (length s - length r) \<le> m" for m
      proof -
        from that len obtain m' where "m = Suc m'" by (cases m) auto
        with parse_value_atom [OF nb, of n cs m'] pv s show ?thesis by simp
      qed
      with len show ?thesis by blast
    next
      case True
      from pv s True obtain d r0 where sk: "skip_ws cs = d # r0"
        by (cases "skip_ws cs") auto
      have l0: "length r0 < length cs"
        using length_skip_ws [of cs] sk by simp
      show ?thesis
      proof (cases "c = CHR ''[''")
        case arr: True
        show ?thesis
        proof (cases "d = CHR '']''")
          case True
          with pv s arr sk have jr: "j = JArr []" "r = r0" by auto
          have len: "length r < length s" using jr l0 s by simp
          have "parse_value m s = Some (j, r)" if "2 * (length s - length r) \<le> m" for m
          proof -
            from that len obtain m' where "m = Suc m'" by (cases m) auto
            with s arr sk True jr show ?thesis by simp
          qed
          with len show ?thesis by blast
        next
          case False
          with pv s arr sk obtain vs where pe: "parse_elements n (d # r0) = Some (vs, r)"
            and j: "j = JArr vs"
            by (auto split: option.splits)
          from IH_e [OF pe] have e1: "length r < length (d # r0)"
            and e2: "\<And>m. 2 * (length (d # r0) - length r) \<le> m + 1 \<Longrightarrow>
                        parse_elements m (d # r0) = Some (vs, r)"
            by auto
          have len: "length r < length s" using e1 l0 s by simp
          have "parse_value m s = Some (j, r)" if "2 * (length s - length r) \<le> m" for m
          proof -
            from that len obtain m' where m: "m = Suc m'" by (cases m) auto
            have "2 * (length (d # r0) - length r) \<le> m' + 1"
              using that m l0 s e1 by simp
            from e2 [OF this] s arr sk False j m show ?thesis by simp
          qed
          with len show ?thesis by blast
        qed
      next
        case notarr: False
        with True have obj: "c = CHR ''{''" by simp
        show ?thesis
        proof (cases "d = CHR ''}''")
          case True
          with pv s obj sk have jr: "j = JObj []" "r = r0" by auto
          have len: "length r < length s" using jr l0 s by simp
          have "parse_value m s = Some (j, r)" if "2 * (length s - length r) \<le> m" for m
          proof -
            from that len obtain m' where "m = Suc m'" by (cases m) auto
            with s obj sk True jr show ?thesis by simp
          qed
          with len show ?thesis by blast
        next
          case False
          with pv s obj sk obtain ms where pm: "parse_members n (d # r0) = Some (ms, r)"
            and j: "j = JObj ms"
            by (auto split: option.splits)
          from IH_m [OF pm] have e1: "length r < length (d # r0)"
            and e2: "\<And>m. 2 * (length (d # r0) - length r) \<le> m + 1 \<Longrightarrow>
                        parse_members m (d # r0) = Some (ms, r)"
            by auto
          have len: "length r < length s" using e1 l0 s by simp
          have "parse_value m s = Some (j, r)" if "2 * (length s - length r) \<le> m" for m
          proof -
            from that len obtain m' where m: "m = Suc m'" by (cases m) auto
            have "2 * (length (d # r0) - length r) \<le> m' + 1"
              using that m l0 s e1 by simp
            from e2 [OF this] s obj sk False j m show ?thesis by simp
          qed
          with len show ?thesis by blast
        qed
      qed
    qed
  qed
  have elems: "length r < length s \<and>
      (\<forall>m. 2 * (length s - length r) \<le> m + 1 \<longrightarrow> parse_elements m s = Some (js, r))"
    if pe: "parse_elements (Suc n) s = Some (js, r)"
  proof -
    from pe obtain v r1 where pv: "parse_value n s = Some (v, r1)"
      by (auto split: option.splits)
    from IH_v [OF pv] have v1: "length r1 < length s"
      and v2: "\<And>m. 2 * (length s - length r1) \<le> m \<Longrightarrow> parse_value m s = Some (v, r1)"
      by auto
    from pe pv obtain d r' where sk: "skip_ws r1 = d # r'"
      by (cases "skip_ws r1") auto
    have l1: "length r' < length r1"
      using length_skip_ws [of r1] sk by simp
    show ?thesis
    proof (cases "d = CHR '',''")
      case False
      with pe pv sk have jr: "d = CHR '']''" "js = [v]" "r = r'"
        by (auto split: if_splits)
      have len: "length r < length s" using jr l1 v1 by simp
      have "parse_elements m s = Some (js, r)" if "2 * (length s - length r) \<le> m + 1" for m
      proof -
        from that len jr l1 v1 obtain m' where m: "m = Suc m'" by (cases m) auto
        have "2 * (length s - length r1) \<le> m'"
          using that m jr l1 v1 by simp
        from v2 [OF this] sk jr m show ?thesis by simp
      qed
      with len show ?thesis by blast
    next
      case True
      with pe pv sk obtain vs where pe': "parse_elements n (skip_ws r') = Some (vs, r)"
        and js: "js = v # vs"
        by (auto split: option.splits)
      from IH_e [OF pe'] have e1: "length r < length (skip_ws r')"
        and e2: "\<And>m. 2 * (length (skip_ws r') - length r) \<le> m + 1 \<Longrightarrow>
                    parse_elements m (skip_ws r') = Some (vs, r)"
        by auto
      have l2: "length (skip_ws r') \<le> length r'" by (rule length_skip_ws)
      have len: "length r < length s" using e1 l2 l1 v1 by simp
      have "parse_elements m s = Some (js, r)" if "2 * (length s - length r) \<le> m + 1" for m
      proof -
        from that e1 l2 l1 v1 obtain m' where m: "m = Suc m'" by (cases m) auto
        have a: "2 * (length s - length r1) \<le> m'"
          using that m e1 l2 l1 v1 by simp
        have b: "2 * (length (skip_ws r') - length r) \<le> m' + 1"
          using that m e1 l2 l1 v1 by simp
        from v2 [OF a] e2 [OF b] sk True js m show ?thesis by simp
      qed
      with len show ?thesis by blast
    qed
  qed
  have membs: "length r < length s \<and>
      (\<forall>m. 2 * (length s - length r) \<le> m + 1 \<longrightarrow> parse_members m s = Some (kvs, r))"
    if pm: "parse_members (Suc n) s = Some (kvs, r)"
  proof -
    from pm obtain q cs where s: "s = q # cs" by (cases s) auto
    from pm s have q: "q = dquote" by (auto split: if_splits)
    from pm s q obtain k r0 where ls: "lex_string cs = Some (k, r0)"
      by (auto split: option.splits)
    have l0: "length r0 < length cs" by (rule lex_string_shorter [OF ls])
    from pm s q ls obtain col r1 where sk0: "skip_ws r0 = col # r1"
      by (cases "skip_ws r0") auto
    from pm s q ls sk0 have col: "col = CHR '':''" by (auto split: if_splits)
    have l1: "length r1 < length r0" using length_skip_ws [of r0] sk0 by simp
    from pm s q ls sk0 col obtain v r2 where pv: "parse_value n (skip_ws r1) = Some (v, r2)"
      by (auto split: option.splits)
    from IH_v [OF pv] have v1: "length r2 < length (skip_ws r1)"
      and v2: "\<And>m. 2 * (length (skip_ws r1) - length r2) \<le> m \<Longrightarrow>
                  parse_value m (skip_ws r1) = Some (v, r2)"
      by auto
    have l2: "length (skip_ws r1) \<le> length r1" by (rule length_skip_ws)
    from pm s q ls sk0 col pv obtain d r3 where sk2: "skip_ws r2 = d # r3"
      by (cases "skip_ws r2") auto
    have l3: "length r3 < length r2" using length_skip_ws [of r2] sk2 by simp
    show ?thesis
    proof (cases "d = CHR '',''")
      case False
      with pm s q ls sk0 col pv sk2 have jr: "d = CHR ''}''" "kvs = [(k, v)]" "r = r3"
        by (auto split: if_splits)
      have len: "length r < length s" using jr l3 v1 l2 l1 l0 s by simp
      have "parse_members m s = Some (kvs, r)" if "2 * (length s - length r) \<le> m + 1" for m
      proof -
        from that jr l3 v1 l2 l1 l0 s obtain m' where m: "m = Suc m'" by (cases m) auto
        have "2 * (length (skip_ws r1) - length r2) \<le> m'"
          using that m jr l3 v1 l2 l1 l0 s by simp
        from v2 [OF this] s q ls sk0 col sk2 jr m show ?thesis by simp
      qed
      with len show ?thesis by blast
    next
      case True
      with pm s q ls sk0 col pv sk2 obtain ms where pm': "parse_members n (skip_ws r3) = Some (ms, r)"
        and kvs: "kvs = (k, v) # ms"
        by (auto split: option.splits)
      from IH_m [OF pm'] have e1: "length r < length (skip_ws r3)"
        and e2: "\<And>m. 2 * (length (skip_ws r3) - length r) \<le> m + 1 \<Longrightarrow>
                    parse_members m (skip_ws r3) = Some (ms, r)"
        by auto
      have l4: "length (skip_ws r3) \<le> length r3" by (rule length_skip_ws)
      have len: "length r < length s" using e1 l4 l3 v1 l2 l1 l0 s by simp
      have "parse_members m s = Some (kvs, r)" if "2 * (length s - length r) \<le> m + 1" for m
      proof -
        from that e1 l4 l3 v1 l2 l1 l0 s obtain m' where m: "m = Suc m'" by (cases m) auto
        have a: "2 * (length (skip_ws r1) - length r2) \<le> m'"
          using that m e1 l4 l3 v1 l2 l1 l0 s by simp
        have b: "2 * (length (skip_ws r3) - length r) \<le> m' + 1"
          using that m e1 l4 l3 v1 l2 l1 l0 s by simp
        from v2 [OF a] e2 [OF b] s q ls sk0 col sk2 True kvs m show ?thesis by simp
      qed
      with len show ?thesis by blast
    qed
  qed
  show ?case using val elems membs by blast
qed

lemma JSON_parse_fuel:
  "JSON_parse s = Some j \<longleftrightarrow> (\<exists>n r. parse_value n (skip_ws s) = Some (j, r) \<and> skip_ws r = [])"
proof
  assume "JSON_parse s = Some j"
  then obtain r where "parse_value (2 * length s + 2) (skip_ws s) = Some (j, r)" "skip_ws r = []"
    by (auto simp add: JSON_parse_def split: option.splits if_splits)
  then show "\<exists>n r. parse_value n (skip_ws s) = Some (j, r) \<and> skip_ws r = []"
    by blast
next
  assume "\<exists>n r. parse_value n (skip_ws s) = Some (j, r) \<and> skip_ws r = []"
  then obtain n r where p: "parse_value n (skip_ws s) = Some (j, r)" and e: "skip_ws r = []"
    by blast
  have "2 * (length (skip_ws s) - length r) \<le> 2 * length s + 2"
    using length_skip_ws [of s] by simp
  with parse_fuel [of n "skip_ws s" j r, THEN conjunct1] p
  have "parse_value (2 * length s + 2) (skip_ws s) = Some (j, r)" by blast
  with e show "JSON_parse s = Some j" by (simp add: JSON_parse_def)
qed

subsection \<open>Notes\<close>

lemma note_of_json_of_note: "note_of_json (json_of_note n) = Some n"
  by (simp add: json_of_note_def get_str_def get_int_def)

lemma those_note_of_json: "those (map (note_of_json \<circ> json_of_note) ns) = Some ns"
  by (induction ns) (simp_all add: note_of_json_of_note)

lemma notes_of_json_of_notes: "notes_of_json (JArr (map json_of_note ns)) = Some ns"
  by (simp add: those_note_of_json)

lemma JSON_stringify_nonempty: "JSON_stringify ns \<noteq> []"
  by (simp add: JSON_stringify_def)

lemma JSON_parse_stringify: "JSON_parse (JSON_stringify ns) = Some (JArr (map json_of_note ns))"
  unfolding JSON_stringify_def by (rule JSON_parse_show)

lemma getFromLocalStorage_mirrored:
  "localStorage s STORAGE_KEY = Some (JSON_stringify ns) \<Longrightarrow>
     getFromLocalStorage s = Inr (JArr (map json_of_note ns))"
  by (simp add: getFromLocalStorage_def JSON_stringify_nonempty JSON_parse_stringify)

section \<open>The executor: \<open>withRetry\<close>\<close>

text \<open>
  Claim C1. With \<open>MAX_RETRY = 3\<close>, the flag clear and an operation whose promise is still
  pending at every timer, \<open>withRetry(operation)\<close> invokes the operation exactly three
  times (three requests are appended to \<open>sent\<close>), shows E010 exactly twice and then E011,
  sets \<open>retryBlocked\<close>, and throws the timer's error \<open>timeout\<close>; nothing else changes
  but the loading overlay, which the retries show.
\<close>

theorem withRetry_always_timeout:
  assumes "\<forall>k. operation k = Pending" and "\<not> retryBlocked s"
  shows "withRetry req operation 0 s =
     (Inl timeout_error,
      s\<lparr>retryBlocked := True,
        shown := shown s @ [''E010'', ''E010'', ''E011''],
        loading := True,
        sent := sent s @ [req, req, req]\<rparr>)"
  using assms
  by (simp add: withRetry.simps [of _ _ _ s] withRetry.simps [of _ _ "Suc 0"]
      withRetry.simps [of _ _ "Suc (Suc 0)"] MAX_RETRY_def showError_def showLoading_def
      timeout_error_def)

theorem withRetry_always_timeout_witness:
  "\<not> retryBlocked initial_state \<and>
   withRetry (GetDocs ''u1'') (\<lambda>k. Pending :: unit outcome) 0 initial_state =
     (Inl (JsError ''Error'' ''timeout''),
      initial_state\<lparr>retryBlocked := True,
        shown := [''E010'', ''E010'', ''E011''],
        loading := True,
        sent := [GetDocs ''u1'', GetDocs ''u1'', GetDocs ''u1'']\<rparr>)"
  using withRetry_always_timeout [of "\<lambda>k. Pending :: unit outcome" initial_state "GetDocs ''u1''"]
  by (simp add: initial_state_def timeout_error_def)

text \<open>
  Claim C2. Whenever \<open>retryBlocked\<close> is set, \<open>withRetry\<close> throws \<open>Retry blocked\<close> at once,
  whatever the operation and the attempt counter: the operation is not invoked (\<open>sent\<close> is
  unchanged), E011 is shown, and the flag stays set, so that the same holds for every
  later call.
\<close>

theorem withRetry_blocked:
  assumes "retryBlocked s"
  shows "withRetry req operation retryCount s =
           (Inl blocked_error, s\<lparr>shown := shown s @ [''E011'']\<rparr>)
         \<and> sent (snd (withRetry req operation retryCount s)) = sent s
         \<and> retryBlocked (snd (withRetry req operation retryCount s))"
  using assms by (simp add: withRetry.simps showError_def)

theorem withRetry_blocked_witness:
  "retryBlocked (initial_state\<lparr>retryBlocked := True\<rparr>) \<and>
   withRetry (DeleteDoc ''n1'') (\<lambda>k. Resolves ()) 0 (initial_state\<lparr>retryBlocked := True\<rparr>) =
     (Inl (JsError ''Error'' ''Retry blocked''),
      initial_state\<lparr>retryBlocked := True, shown := [''E011'']\<rparr>)"
  using withRetry_blocked [of "initial_state\<lparr>retryBlocked := True\<rparr>" "DeleteDoc ''n1''"
      "\<lambda>k. Resolves ()" 0]
  by (simp add: initial_state_def blocked_error_def)

text \<open>
  Claim C4. With the flag clear and the attempt counter 0, an operation whose promise
  rejects with an error whose message is not \<open>timeout\<close> is invoked once and not retried:
  \<open>withRetry\<close> throws that same error, and the state changes by that one invocation only
  (no notification, flag still clear).
\<close>

theorem withRetry_non_timeout:
  assumes "\<not> retryBlocked s"
    and "operation (length (sent s)) = Rejects e"
    and "message e \<noteq> ''timeout''"
  shows "withRetry req operation 0 s = (Inl e, s\<lparr>sent := sent s @ [req]\<rparr>)"
  using assms by (simp add: withRetry.simps MAX_RETRY_def)

theorem withRetry_non_timeout_witness:
  "\<not> retryBlocked initial_state \<and>
   message (JsError ''FirebaseError'' ''permission-denied'') \<noteq> ''timeout'' \<and>
   withRetry (DeleteDoc ''n1'')
       (\<lambda>k. Rejects (JsError ''FirebaseError'' ''permission-denied'') :: unit outcome) 0
       initial_state =
     (Inl (JsError ''FirebaseError'' ''permission-denied''),
      initial_state\<lparr>sent := [DeleteDoc ''n1'']\<rparr>)"
  using withRetry_non_timeout [of initial_state
      "\<lambda>k. Rejects (JsError ''FirebaseError'' ''permission-denied'') :: unit outcome"
      "JsError ''FirebaseError'' ''permission-denied''" "DeleteDoc ''n1''"]
  by (simp add: initial_state_def)

text \<open>
  Claim C10. Once the attempt counter has reached \<open>MAX_RETRY - 1\<close>, every failure of the
  raced operation, whatever its message, sets \<open>retryBlocked\<close> and shows E011 before it is
  rethrown. In particular a call that starts at attempt 0, times out twice and is then
  rejected with an arbitrary error \<open>e\<close> trips the breaker on \<open>e\<close>.
\<close>

theorem withRetry_last_attempt_blocks:
  assumes "\<not> retryBlocked s"
  shows "(MAX_RETRY - 1 \<le> retryCount \<and> fetchWithTimeout (operation (length (sent s))) = Inl e
            \<longrightarrow> withRetry req operation retryCount s =
                  (Inl e, s\<lparr>retryBlocked := True, shown := shown s @ [''E011''],
                            sent := sent s @ [req]\<rparr>))
       \<and> (operation (length (sent s)) = Pending \<and> operation (Suc (length (sent s))) = Pending
            \<and> operation (Suc (Suc (length (sent s)))) = Rejects e
            \<longrightarrow> withRetry req operation 0 s =
                  (Inl e, s\<lparr>retryBlocked := True,
                            shown := shown s @ [''E010'', ''E010'', ''E011''],
                            loading := True,
                            sent := sent s @ [req, req, req]\<rparr>))"
  using assms
  by (simp add: withRetry.simps [of _ _ _ s] withRetry.simps [of _ _ "Suc 0"]
      withRetry.simps [of _ _ "Suc (Suc 0)"] MAX_RETRY_def showError_def showLoading_def
      timeout_error_def)

theorem withRetry_last_attempt_blocks_witness:
  "\<not> retryBlocked initial_state \<and>
   withRetry (DeleteDoc ''n1'')
       (\<lambda>k. Rejects (JsError ''FirebaseError'' ''not-found'') :: unit outcome) 2 initial_state =
     (Inl (JsError ''FirebaseError'' ''not-found''),
      initial_state\<lparr>retryBlocked := True, shown := [''E011''], sent := [DeleteDoc ''n1'']\<rparr>) \<and>
   withRetry (DeleteDoc ''n1'')
       (\<lambda>k. if k < 2 then Pending else Rejects (JsError ''FirebaseError'' ''not-found'') :: unit outcome)
       0 initial_state =
     (Inl (JsError ''FirebaseError'' ''not-found''),
      initial_state\<lparr>retryBlocked := True, shown := [''E010'', ''E010'', ''E011''],
        loading := True, sent := [DeleteDoc ''n1'', DeleteDoc ''n1'', DeleteDoc ''n1'']\<rparr>)"
  using
    withRetry_last_attempt_blocks [of initial_state 2
      "\<lambda>k. Rejects (JsError ''FirebaseError'' ''not-found'') :: unit outcome"
      "JsError ''FirebaseError'' ''not-found''" "DeleteDoc ''n1''"]
    withRetry_last_attempt_blocks [of initial_state 0
      "\<lambda>k. if k < 2 then Pending else Rejects (JsError ''FirebaseError'' ''not-found'') :: unit outcome"
      "JsError ''FirebaseError'' ''not-found''" "DeleteDoc ''n1''"]
  by (simp add: initial_state_def MAX_RETRY_def)

section \<open>The local mirror: \<open>getFromLocalStorage\<close>\<close>

text \<open>
  Claim C3, as amended. \<open>getFromLocalStorage\<close> returns the empty collection when nothing
  or the empty string is stored under \<open>notes\<close>; it returns the parsed value when a
  non-empty text is stored and parses; and when a non-empty text is stored that does not
  parse it throws the SyntaxError of \<open>JSON.parse\<close>, for which the function has no handler.
  A value that \<open>saveToLocalStorage\<close> wrote always parses, and what is read back is the
  saved collection.
\<close>

theorem getFromLocalStorage_cases:
  "(localStorage s STORAGE_KEY = None \<or> localStorage s STORAGE_KEY = Some [] \<longrightarrow>
      getFromLocalStorage s = Inr (JArr []))
   \<and> (\<forall>d j. localStorage s STORAGE_KEY = Some d \<and> d \<noteq> [] \<and> JSON_parse d = Some j \<longrightarrow>
          getFromLocalStorage s = Inr j)
   \<and> (\<forall>d. localStorage s STORAGE_KEY = Some d \<and> d \<noteq> [] \<and> JSON_parse d = None \<longrightarrow>
          getFromLocalStorage s = Inl syntax_error)
   \<and> getFromLocalStorage (saveToLocalStorage ns s) = Inr (JArr (map json_of_note ns))
   \<and> notes_of_json (JArr (map json_of_note ns)) = Some ns"
proof -
  have "getFromLocalStorage (saveToLocalStorage ns s) = Inr (JArr (map json_of_note ns))"
    by (rule getFromLocalStorage_mirrored) (simp add: saveToLocalStorage_def)
  then show ?thesis
    by (simp add: those_note_of_json) (auto simp add: getFromLocalStorage_def)
qed

theorem getFromLocalStorage_cases_witness:
  "localStorage initial_state STORAGE_KEY = None \<and>
   getFromLocalStorage initial_state = Inr (JArr []) \<and>
   localStorage corrupt_state STORAGE_KEY = Some ''[{'' \<and> JSON_parse ''[{'' = None \<and>
   getFromLocalStorage corrupt_state = Inl syntax_error \<and>
   JSON_parse ''[ ]'' = Some (JArr []) \<and>
   getFromLocalStorage (initial_state\<lparr>localStorage := [STORAGE_KEY \<mapsto> ''[ ]'']\<rparr>) = Inr (JArr []) \<and>
   getFromLocalStorage example_state = Inr (JArr [json_of_note algebra, json_of_note geometry])"
proof -
  have p: "JSON_parse ''[{'' = None" by code_simp
  have q: "JSON_parse ''[ ]'' = Some (JArr [])" by code_simp
  have a: "localStorage initial_state STORAGE_KEY = None"
    by (simp add: initial_state_def)
  have b: "localStorage corrupt_state STORAGE_KEY = Some ''[{''"
    by (simp add: corrupt_state_def)
  have c: "localStorage (initial_state\<lparr>localStorage := [STORAGE_KEY \<mapsto> ''[ ]'']\<rparr>) STORAGE_KEY
             = Some ''[ ]''"
    by simp
  show ?thesis
    using a b c p q
      getFromLocalStorage_cases [of initial_state "[]"]
      getFromLocalStorage_cases [of corrupt_state "[]"]
      getFromLocalStorage_cases [of "initial_state\<lparr>localStorage := [STORAGE_KEY \<mapsto> ''[ ]'']\<rparr>" "[]"]
      getFromLocalStorage_cases [of "initial_state\<lparr>currentUser := Some ''u1'', notesData := [algebra, geometry]\<rparr>"
        "[algebra, geometry]"]
    by (simp add: example_state_def)
qed

text \<open>
  The claim as stated fails: with the cut-off text \<open>[{\<close> in the storage,
  \<open>getFromLocalStorage\<close> throws instead of returning an empty collection, and
  \<open>renderListPage\<close>, which calls it inside its \<open>catch\<close> block, lets the error escape.
\<close>

theorem getFromLocalStorage_corrupt_counterexample:
  "localStorage corrupt_state STORAGE_KEY = Some ''[{'' \<and>
   JSON_parse ''[{'' = None \<and>
   getFromLocalStorage corrupt_state = Inl syntax_error \<and>
   fst (renderListPage (\<lambda>k. Rejects denied) corrupt_state) = Inl syntax_error"
proof -
  have p: "JSON_parse ''[{'' = None" by code_simp
  have g: "getFromLocalStorage corrupt_state = Inl syntax_error"
    using p by (simp add: getFromLocalStorage_def corrupt_state_def)
  have w: "withRetry (GetDocs ''u1'') (\<lambda>k. Rejects denied :: (string \<times> doc_data) list outcome) 0
             (showLoading corrupt_state) =
           (Inl denied, (showLoading corrupt_state)\<lparr>sent := [GetDocs ''u1'']\<rparr>)"
    by (simp add: withRetry.simps corrupt_state_def initial_state_def denied_def showLoading_def MAX_RETRY_def)
  have cu: "currentUser (showLoading corrupt_state) = Some ''u1''"
    by (simp add: corrupt_state_def showLoading_def)
  have ls: "localStorage (showLoading corrupt_state) STORAGE_KEY = Some ''[{''"
    by (simp add: corrupt_state_def showLoading_def)
  have "fst (renderListPage (\<lambda>k. Rejects denied) corrupt_state) = Inl syntax_error"
    by (simp add: renderListPage_def loadNotesFromFirestore_def cu w getFromLocalStorage_def ls p)
  with p g show ?thesis by (simp add: corrupt_state_def)
qed

section \<open>The list page: \<open>renderListPage\<close>\<close>

text \<open>
  Claim C5. When the query through \<open>withRetry\<close> succeeds, \<open>renderListPage\<close> replaces the
  in-memory collection by the notes of the snapshot and stores their serialisation in the
  mirror. When loading fails (the query fails, or no user is signed in) while the mirror
  holds the serialisation of a collection \<open>ns\<close>, as written by the last
  \<open>saveToLocalStorage ns\<close>, the in-memory collection becomes exactly \<open>ns\<close>, the mirror is
  unchanged, no error is thrown and no notification is shown beyond those of the load.
\<close>

theorem renderListPage_fallback:
  "(\<forall>u snapshot. currentUser s = Some u
        \<and> fst (withRetry (GetDocs u) getDocs 0 (showLoading s)) = Inr snapshot \<longrightarrow>
          fst (renderListPage getDocs s) = Inr ()
        \<and> notesData (snd (renderListPage getDocs s)) = map note_of_doc snapshot
        \<and> localStorage (snd (renderListPage getDocs s)) STORAGE_KEY =
            Some (JSON_stringify (map note_of_doc snapshot)))
   \<and> (\<forall>e ns. fst (loadNotesFromFirestore getDocs (showLoading s)) = Inl e
        \<and> localStorage s STORAGE_KEY = Some (JSON_stringify ns) \<longrightarrow>
          fst (renderListPage getDocs s) = Inr ()
        \<and> notesData (snd (renderListPage getDocs s)) = ns
        \<and> localStorage (snd (renderListPage getDocs s)) = localStorage s
        \<and> shown (snd (renderListPage getDocs s)) =
            shown (snd (loadNotesFromFirestore getDocs (showLoading s))))"
proof -
  have ok: "fst (renderListPage getDocs s) = Inr ()
        \<and> notesData (snd (renderListPage getDocs s)) = map note_of_doc snapshot
        \<and> localStorage (snd (renderListPage getDocs s)) STORAGE_KEY =
            Some (JSON_stringify (map note_of_doc snapshot))"
    if u: "currentUser s = Some u"
      and w: "fst (withRetry (GetDocs u) getDocs 0 (showLoading s)) = Inr snapshot"
    for u snapshot
  proof -
    obtain s1 where "withRetry (GetDocs u) getDocs 0 (showLoading s) = (Inr snapshot, s1)"
      using w by (cases "withRetry (GetDocs u) getDocs 0 (showLoading s)") auto
    then show ?thesis
      using u
      by (simp add: renderListPage_def loadNotesFromFirestore_def showLoading_def hideLoading_def
          saveToLocalStorage_def)
  qed
  have ko: "fst (renderListPage getDocs s) = Inr ()
        \<and> notesData (snd (renderListPage getDocs s)) = ns
        \<and> localStorage (snd (renderListPage getDocs s)) = localStorage s
        \<and> shown (snd (renderListPage getDocs s)) =
            shown (snd (loadNotesFromFirestore getDocs (showLoading s)))"
    if l: "fst (loadNotesFromFirestore getDocs (showLoading s)) = Inl e"
      and m: "localStorage s STORAGE_KEY = Some (JSON_stringify ns)"
    for e ns
  proof -
    obtain s1 where l1: "loadNotesFromFirestore getDocs (showLoading s) = (Inl e, s1)"
      using l by (cases "loadNotesFromFirestore getDocs (showLoading s)") auto
    have ls: "localStorage s1 = localStorage s"
    proof (cases "currentUser s")
      case None
      with l1 show ?thesis by (auto simp add: loadNotesFromFirestore_def showLoading_def)
    next
      case (Some u)
      obtain r s2 where w: "withRetry (GetDocs u) getDocs 0 (showLoading s) = (r, s2)"
        by (cases "withRetry (GetDocs u) getDocs 0 (showLoading s)")
      have "localStorage s2 = localStorage s"
        using withRetry_frame [of "GetDocs u" getDocs 0 "showLoading s"] w
        by (simp add: showLoading_def)
      with l1 Some w show ?thesis
        by (auto simp add: loadNotesFromFirestore_def showLoading_def split: sum.splits)
    qed
    have g: "getFromLocalStorage s1 = Inr (JArr (map json_of_note ns))"
      using getFromLocalStorage_mirrored [of s1 ns] ls m by simp
    show ?thesis
      using l1 g ls
      by (simp add: renderListPage_def those_note_of_json hideLoading_def)
  qed
  show ?thesis using ok ko by blast
qed

theorem renderListPage_fallback_witness:
  "currentUser example_state = Some ''u1'' \<and>
   fst (withRetry (GetDocs ''u1'') (\<lambda>k. Resolves [(''n1'', algebra_doc)]) 0
          (showLoading example_state)) = Inr [(''n1'', algebra_doc)] \<and>
   fst (renderListPage (\<lambda>k. Resolves [(''n1'', algebra_doc)]) example_state) = Inr () \<and>
   notesData (snd (renderListPage (\<lambda>k. Resolves [(''n1'', algebra_doc)]) example_state)) = [algebra] \<and>
   localStorage (snd (renderListPage (\<lambda>k. Resolves [(''n1'', algebra_doc)]) example_state))
     STORAGE_KEY = Some (JSON_stringify [algebra]) \<and>
   fst (loadNotesFromFirestore (\<lambda>k. Rejects denied)
          (showLoading (example_state\<lparr>notesData := []\<rparr>))) = Inl denied \<and>
   localStorage (example_state\<lparr>notesData := []\<rparr>) STORAGE_KEY =
     Some (JSON_stringify [algebra, geometry]) \<and>
   fst (renderListPage (\<lambda>k. Rejects denied) (example_state\<lparr>notesData := []\<rparr>)) = Inr () \<and>
   notesData (snd (renderListPage (\<lambda>k. Rejects denied) (example_state\<lparr>notesData := []\<rparr>))) =
     [algebra, geometry] \<and>
   shown (snd (renderListPage (\<lambda>k. Rejects denied) (example_state\<lparr>notesData := []\<rparr>))) = []"
proof -
  have u: "currentUser example_state = Some ''u1''"
    by (simp add: example_state_def saveToLocalStorage_def initial_state_def)
  have w: "withRetry (GetDocs ''u1'') (\<lambda>k. Resolves [(''n1'', algebra_doc)]) 0
             (showLoading example_state) =
           (Inr [(''n1'', algebra_doc)], (showLoading example_state)\<lparr>sent := [GetDocs ''u1'']\<rparr>)"
    by (simp add: withRetry.simps example_state_def saveToLocalStorage_def initial_state_def
        showLoading_def)
  have n: "map note_of_doc [(''n1'', algebra_doc)] = [algebra]"
    by (simp add: note_of_doc_def algebra_doc_def algebra_def)
  let ?s = "example_state\<lparr>notesData := []\<rparr>"
  have u': "currentUser (showLoading ?s) = Some ''u1''"
    by (simp add: example_state_def saveToLocalStorage_def initial_state_def showLoading_def)
  have w': "withRetry (GetDocs ''u1'') (\<lambda>k. Rejects denied :: (string \<times> doc_data) list outcome) 0
             (showLoading ?s) =
           (Inl denied, (showLoading ?s)\<lparr>sent := [GetDocs ''u1'']\<rparr>)"
    by (simp add: withRetry.simps example_state_def saveToLocalStorage_def initial_state_def
        showLoading_def MAX_RETRY_def denied_def)
  have l: "loadNotesFromFirestore (\<lambda>k. Rejects denied) (showLoading ?s) =
              (Inl denied, (showLoading ?s)\<lparr>sent := [GetDocs ''u1'']\<rparr>)"
    by (simp add: loadNotesFromFirestore_def u' w')
  have m: "localStorage ?s STORAGE_KEY = Some (JSON_stringify [algebra, geometry])"
    by (simp add: example_state_def saveToLocalStorage_def)
  have sh: "shown ((showLoading ?s)\<lparr>sent := [GetDocs ''u1'']\<rparr>) = []"
    by (simp add: example_state_def saveToLocalStorage_def initial_state_def showLoading_def)
  show ?thesis
    using u w n l m sh
      renderListPage_fallback [of example_state "\<lambda>k. Resolves [(''n1'', algebra_doc)]"]
      renderListPage_fallback [of ?s "\<lambda>k. Rejects denied"]
    by simp
qed

section \<open>Titles are unique: \<open>handleRegister\<close> and \<open>handleEdit\<close>\<close>

text \<open>
  Claim C6, as amended. A create whose trimmed title equals the title of a note of the
  in-memory collection is rejected before any remote call: nothing is sent, the
  collection is unchanged (so the number of notes with that title is what it was), and
  one error is shown, which is E008 (duplicate title) when the form passes the field
  checks and otherwise the code of the first field check that fails. On update the
  collision check skips the notes with the id of the note being edited: a form that
  passes the field checks collides (E008, nothing sent) when another note has the title,
  and when only notes with that id have it the update is sent and applied without any
  error shown.
\<close>

theorem title_uniqueness:
  "(list_ex (\<lambda>n. Title n = trim (f_title f)) (notesData s) \<longrightarrow>
      handleRegister addDoc now f s =
        (Inr (), s\<lparr>shown := shown s @ [case fields_error f of Some c \<Rightarrow> c | None \<Rightarrow> ''E008'']\<rparr>)
      \<and> sent (snd (handleRegister addDoc now f s)) = sent s
      \<and> notesData (snd (handleRegister addDoc now f s)) = notesData s
      \<and> length (filter (\<lambda>n. Title n = trim (f_title f))
                  (notesData (snd (handleRegister addDoc now f s)))) =
          length (filter (\<lambda>n. Title n = trim (f_title f)) (notesData s))
      \<and> (fields_error f = None \<longrightarrow>
            shown (snd (handleRegister addDoc now f s)) = shown s @ [''E008'']))
   \<and> (fields_error f = None
        \<and> list_ex (\<lambda>n. Title n = trim (f_title f) \<and> note_id n \<noteq> note_id note) (notesData s) \<longrightarrow>
          handleEdit updateDoc note f s = s\<lparr>shown := shown s @ [''E008'']\<rparr>)
   \<and> (fields_error f = None
        \<and> (\<forall>n \<in> set (notesData s). Title n = trim (f_title f) \<longrightarrow> note_id n = note_id note)
        \<and> \<not> retryBlocked s \<and> updateDoc (length (sent s)) = Resolves () \<longrightarrow>
          shown (handleEdit updateDoc note f s) = shown s
        \<and> sent (handleEdit updateDoc note f s) =
            sent s @ [UpdateDoc (note_id note)
                        (EditPatch (trim (f_title f)) (trim (f_question f)) (trim (f_answer f))
                           (trim (f_explain f)))]
        \<and> notesData (handleEdit updateDoc note f s) =
            (case findIndex (\<lambda>n. note_id n = note_id note) (notesData s) of
               None \<Rightarrow> notesData s
             | Some i \<Rightarrow> (notesData s)[i := edited f (notesData s ! i)]))"
proof -
  have create: "handleRegister addDoc now f s =
        (Inr (), s\<lparr>shown := shown s @ [case fields_error f of Some c \<Rightarrow> c | None \<Rightarrow> ''E008'']\<rparr>)"
    if "list_ex (\<lambda>n. Title n = trim (f_title f)) (notesData s)"
    using that by (simp add: handleRegister_def fields_error_def Let_def showError_def)
  have collide: "handleEdit updateDoc note f s = s\<lparr>shown := shown s @ [''E008'']\<rparr>"
    if "fields_error f = None"
      and "list_ex (\<lambda>n. Title n = trim (f_title f) \<and> note_id n \<noteq> note_id note) (notesData s)"
    using that
    by (simp add: handleEdit_def fields_error_def Let_def showError_def split: if_splits)
  have own: "shown (handleEdit updateDoc note f s) = shown s
        \<and> sent (handleEdit updateDoc note f s) =
            sent s @ [UpdateDoc (note_id note)
                        (EditPatch (trim (f_title f)) (trim (f_question f)) (trim (f_answer f))
                           (trim (f_explain f)))]
        \<and> notesData (handleEdit updateDoc note f s) =
            (case findIndex (\<lambda>n. note_id n = note_id note) (notesData s) of
               None \<Rightarrow> notesData s
             | Some i \<Rightarrow> (notesData s)[i := edited f (notesData s ! i)])"
    if ok: "fields_error f = None"
      and uniq: "\<forall>n \<in> set (notesData s). Title n = trim (f_title f) \<longrightarrow> note_id n = note_id note"
      and nb: "\<not> retryBlocked s" and res: "updateDoc (length (sent s)) = Resolves ()"
  proof -
    let ?req = "UpdateDoc (note_id note)
      (EditPatch (trim (f_title f)) (trim (f_question f)) (trim (f_answer f)) (trim (f_explain f)))"
    have w: "withRetry ?req updateDoc 0 (showLoading s) =
        (Inr (), (showLoading s)\<lparr>sent := sent s @ [?req]\<rparr>)"
      using withRetry_first_success [of "showLoading s" updateDoc "()" ?req 0] nb res
      by (simp add: showLoading_def)
    have nocoll: "\<not> list_ex (\<lambda>n. Title n = trim (f_title f) \<and> note_id n \<noteq> note_id note) (notesData s)"
      using uniq by (auto simp add: list_ex_iff)
    show ?thesis
      using ok nocoll w
      by (simp add: handleEdit_def fields_error_def Let_def showLoading_def hideLoading_def
          saveToLocalStorage_def edited_def split: if_splits option.splits)
  qed
  show ?thesis
    using create collide own by simp
qed

theorem title_uniqueness_witness:
  "list_ex (\<lambda>n. Title n = trim (f_title example_form)) (notesData example_state) \<and>
   fields_error example_form = None \<and>
   handleRegister (\<lambda>k. Resolves ''n3'') ''2024-01-03T00:00:00.000Z'' example_form example_state =
     (Inr (), example_state\<lparr>shown := [''E008'']\<rparr>) \<and>
   length (filter (\<lambda>n. Title n = ''Algebra'')
     (notesData (snd (handleRegister (\<lambda>k. Resolves ''n3'') ''2024-01-03T00:00:00.000Z''
                        example_form example_state)))) = 1 \<and>
   list_ex (\<lambda>n. Title n = trim (f_title example_form) \<and> note_id n \<noteq> note_id geometry)
     (notesData example_state) \<and>
   handleEdit (\<lambda>k. Resolves ()) geometry example_form example_state =
     example_state\<lparr>shown := [''E008'']\<rparr> \<and>
   \<not> retryBlocked example_state \<and>
   shown (handleEdit (\<lambda>k. Resolves ()) algebra example_form example_state) = [] \<and>
   sent (handleEdit (\<lambda>k. Resolves ()) algebra example_form example_state) =
     [UpdateDoc ''n1'' (EditPatch ''Algebra'' ''3 + 3'' ''6'' [])]"
proof -
  have a: "list_ex (\<lambda>n. Title n = trim (f_title example_form)) (notesData example_state)"
    by (simp add: algebra_def geometry_def example_state_def initial_state_def saveToLocalStorage_def
        showError_def showLoading_def hideLoading_def trim_def is_js_space_def example_form_def)
  have b: "fields_error example_form = None"
    by (simp add: fields_error_def algebra_def geometry_def example_state_def initial_state_def saveToLocalStorage_def
        showError_def showLoading_def hideLoading_def trim_def is_js_space_def example_form_def TITLE_MAX_LENGTH_def CONTENT_MAX_LENGTH_def)
  have c: "list_ex (\<lambda>n. Title n = trim (f_title example_form) \<and> note_id n \<noteq> note_id geometry)
     (notesData example_state)"
    by (simp add: algebra_def geometry_def example_state_def initial_state_def saveToLocalStorage_def
        showError_def showLoading_def hideLoading_def trim_def is_js_space_def example_form_def)
  have d: "\<forall>n \<in> set (notesData example_state).
             Title n = trim (f_title example_form) \<longrightarrow> note_id n = note_id algebra"
    by (simp add: algebra_def geometry_def example_state_def initial_state_def saveToLocalStorage_def
        showError_def showLoading_def hideLoading_def trim_def is_js_space_def example_form_def)
  have e: "\<not> retryBlocked example_state" "sent example_state = []" "shown example_state = []"
    "(\<lambda>k. Resolves ()) (length (sent example_state)) = Resolves ()"
    by (simp_all add: algebra_def geometry_def example_state_def initial_state_def saveToLocalStorage_def
        showError_def showLoading_def hideLoading_def trim_def is_js_space_def example_form_def)
  have t: "trim (f_title example_form) = ''Algebra''" "trim (f_question example_form) = ''3 + 3''"
    "trim (f_answer example_form) = ''6''" "trim (f_explain example_form) = []"
    "note_id algebra = ''n1''"
    by (simp_all add: algebra_def geometry_def example_state_def initial_state_def saveToLocalStorage_def
        showError_def showLoading_def hideLoading_def trim_def is_js_space_def example_form_def)
  show ?thesis
    using a b c d e
      title_uniqueness [of example_form example_state "\<lambda>k. Resolves ''n3''"
        "''2024-01-03T00:00:00.000Z''" geometry "\<lambda>k. Resolves ()"]
      title_uniqueness [of example_form example_state "\<lambda>k. Resolves ''n3''"
        "''2024-01-03T00:00:00.000Z''" algebra "\<lambda>k. Resolves ()"]
    by (simp add: t) (simp add: algebra_def geometry_def example_state_def initial_state_def saveToLocalStorage_def
        showError_def showLoading_def hideLoading_def trim_def is_js_space_def example_form_def)
qed

text \<open>
  The claim as stated fails for a create that also fails a field check: with the title of
  an existing note and a blank question, \<open>handleRegister\<close> shows E007 (required field
  missing), not E008.
\<close>

theorem title_uniqueness_counterexample:
  "list_ex (\<lambda>n. Title n = trim (f_title incomplete_form)) (notesData example_state) \<and>
   handleRegister (\<lambda>k. Resolves ''n3'') ''2024-01-03T00:00:00.000Z'' incomplete_form example_state =
     (Inr (), example_state\<lparr>shown := [''E007'']\<rparr>) \<and>
   ''E008'' \<notin> set (shown (snd (handleRegister (\<lambda>k. Resolves ''n3'') ''2024-01-03T00:00:00.000Z''
                                   incomplete_form example_state)))"
  by (simp add: handleRegister_def algebra_def geometry_def example_state_def initial_state_def saveToLocalStorage_def
        showError_def showLoading_def hideLoading_def trim_def is_js_space_def incomplete_form_def Let_def)

section \<open>Deletion is confirmed by the title: \<open>handleDelete\<close>\<close>

text \<open>
  Claim C7, as amended. If the trimmed confirmation text differs from the note's title,
  \<open>handleDelete\<close> only shows E009: no request is sent and the collection is unchanged.
  If it is equal, the delete request for the note's id goes through \<open>withRetry\<close>: the
  requests sent are those of that call, at least one while the circuit breaker is clear
  and none while it is set (nothing is deleted then). When \<open>withRetry\<close> succeeds, the
  notes with that id are removed from the in-memory collection and the mirror holds the
  serialisation of the new collection; when it fails, the collection is unchanged.
\<close>

theorem handleDelete_confirmation:
  "(trim confirm \<noteq> Title note \<longrightarrow>
      handleDelete deleteDoc note confirm s = s\<lparr>shown := shown s @ [''E009'']\<rparr>)
   \<and> (trim confirm = Title note \<longrightarrow>
        sent (handleDelete deleteDoc note confirm s) =
          sent (snd (withRetry (DeleteDoc (note_id note)) deleteDoc 0 (showLoading s)))
      \<and> (\<exists>k. sent (handleDelete deleteDoc note confirm s) =
               sent s @ replicate k (DeleteDoc (note_id note))
             \<and> (\<not> retryBlocked s \<longrightarrow> 0 < k))
      \<and> (fst (withRetry (DeleteDoc (note_id note)) deleteDoc 0 (showLoading s)) = Inr ()
           \<longrightarrow> notesData (handleDelete deleteDoc note confirm s) =
                 filter (\<lambda>n. note_id n \<noteq> note_id note) (notesData s)
             \<and> localStorage (handleDelete deleteDoc note confirm s) STORAGE_KEY =
                 Some (JSON_stringify (filter (\<lambda>n. note_id n \<noteq> note_id note) (notesData s))))
      \<and> (fst (withRetry (DeleteDoc (note_id note)) deleteDoc 0 (showLoading s)) \<noteq> Inr ()
           \<longrightarrow> notesData (handleDelete deleteDoc note confirm s) = notesData s)
      \<and> (retryBlocked s
           \<longrightarrow> sent (handleDelete deleteDoc note confirm s) = sent s
             \<and> notesData (handleDelete deleteDoc note confirm s) = notesData s))"
proof -
  let ?req = "DeleteDoc (note_id note)"
  obtain r s1 where w: "withRetry ?req deleteDoc 0 (showLoading s) = (r, s1)"
    by (cases "withRetry ?req deleteDoc 0 (showLoading s)")
  have fr: "notesData s1 = notesData s"
    using withRetry_frame [of ?req deleteDoc 0 "showLoading s"] w by (simp add: showLoading_def)
  obtain k where k: "sent s1 = sent s @ replicate k ?req" "\<not> retryBlocked s \<longrightarrow> 0 < k"
    using withRetry_sent [of ?req deleteDoc 0 "showLoading s"] w
    by (auto simp add: showLoading_def)
  have mismatch: "trim confirm \<noteq> Title note \<Longrightarrow>
      handleDelete deleteDoc note confirm s = s\<lparr>shown := shown s @ [''E009'']\<rparr>"
    by (simp add: handleDelete_def showError_def)
  have sent_eq: "trim confirm = Title note \<Longrightarrow>
      sent (handleDelete deleteDoc note confirm s) = sent s1"
    using w by (auto simp add: handleDelete_def Let_def hideLoading_def saveToLocalStorage_def
        showError_def split: sum.splits)
  have ok: "trim confirm = Title note \<Longrightarrow> r = Inr () \<Longrightarrow>
      notesData (handleDelete deleteDoc note confirm s) =
                 filter (\<lambda>n. note_id n \<noteq> note_id note) (notesData s)
      \<and> localStorage (handleDelete deleteDoc note confirm s) STORAGE_KEY =
                 Some (JSON_stringify (filter (\<lambda>n. note_id n \<noteq> note_id note) (notesData s)))"
    using w fr by (simp add: handleDelete_def Let_def hideLoading_def saveToLocalStorage_def)
  have ko: "trim confirm = Title note \<Longrightarrow> r \<noteq> Inr () \<Longrightarrow>
      notesData (handleDelete deleteDoc note confirm s) = notesData s"
    using w fr by (auto simp add: handleDelete_def Let_def hideLoading_def showError_def
        split: sum.splits)
  have blocked: "trim confirm = Title note \<Longrightarrow> retryBlocked s \<Longrightarrow>
      sent (handleDelete deleteDoc note confirm s) = sent s
      \<and> notesData (handleDelete deleteDoc note confirm s) = notesData s"
    by (simp add: handleDelete_def Let_def withRetry.simps showLoading_def hideLoading_def
        showError_def)
  show ?thesis
    using mismatch sent_eq ok ko k w blocked by (metis fst_conv snd_conv)
qed

theorem handleDelete_confirmation_witness:
  "trim ''Wrong Title'' \<noteq> Title algebra \<and>
   handleDelete (\<lambda>k. Resolves ()) algebra ''Wrong Title'' example_state =
     example_state\<lparr>shown := [''E009'']\<rparr> \<and>
   trim ''Algebra'' = Title algebra \<and> \<not> retryBlocked example_state \<and>
   fst (withRetry (DeleteDoc (note_id algebra)) (\<lambda>k. Resolves ()) 0 (showLoading example_state)) =
     Inr () \<and>
   sent (handleDelete (\<lambda>k. Resolves ()) algebra ''Algebra'' example_state) = [DeleteDoc ''n1''] \<and>
   notesData (handleDelete (\<lambda>k. Resolves ()) algebra ''Algebra'' example_state) = [geometry] \<and>
   localStorage (handleDelete (\<lambda>k. Resolves ()) algebra ''Algebra'' example_state) STORAGE_KEY =
     Some (JSON_stringify [geometry]) \<and>
   fst (withRetry (DeleteDoc (note_id algebra)) (\<lambda>k. Rejects denied :: unit outcome) 0
          (showLoading example_state)) \<noteq> Inr () \<and>
   notesData (handleDelete (\<lambda>k. Rejects denied) algebra ''Algebra'' example_state) =
     [algebra, geometry] \<and>
   retryBlocked blocked_state \<and>
   sent (handleDelete (\<lambda>k. Resolves ()) algebra ''Algebra'' blocked_state) = [] \<and>
   notesData (handleDelete (\<lambda>k. Resolves ()) algebra ''Algebra'' blocked_state) =
     [algebra, geometry]"
proof -
  have a: "trim ''Wrong Title'' \<noteq> Title algebra" "trim ''Algebra'' = Title algebra"
    "\<not> retryBlocked example_state" "shown example_state = []"
    "retryBlocked blocked_state" "sent blocked_state = []"
    "notesData example_state = [algebra, geometry]"
    "notesData blocked_state = [algebra, geometry]"
    by (simp_all add: blocked_state_def algebra_def geometry_def example_state_def initial_state_def saveToLocalStorage_def
        showError_def showLoading_def hideLoading_def trim_def is_js_space_def)
  have w: "withRetry (DeleteDoc (note_id algebra)) (\<lambda>k. Resolves ()) 0 (showLoading example_state) =
           (Inr (), (showLoading example_state)\<lparr>sent := [DeleteDoc ''n1'']\<rparr>)"
    by (simp add: withRetry.simps algebra_def geometry_def example_state_def initial_state_def saveToLocalStorage_def
        showError_def showLoading_def hideLoading_def trim_def is_js_space_def)
  have w': "withRetry (DeleteDoc (note_id algebra)) (\<lambda>k. Rejects denied :: unit outcome) 0
              (showLoading example_state) =
           (Inl denied, (showLoading example_state)\<lparr>sent := [DeleteDoc ''n1'']\<rparr>)"
    by (simp add: withRetry.simps algebra_def geometry_def example_state_def initial_state_def saveToLocalStorage_def
        showError_def showLoading_def hideLoading_def trim_def is_js_space_def denied_def MAX_RETRY_def)
  have s: "sent (handleDelete (\<lambda>k. Resolves ()) algebra ''Algebra'' example_state) = [DeleteDoc ''n1'']"
    using a(2) w by (simp add: handleDelete_def Let_def hideLoading_def saveToLocalStorage_def)
  have ok: "fst (withRetry (DeleteDoc (note_id algebra)) (\<lambda>k. Resolves ()) 0
                  (showLoading example_state)) = Inr ()"
    and ko: "fst (withRetry (DeleteDoc (note_id algebra)) (\<lambda>k. Rejects denied :: unit outcome) 0
                  (showLoading example_state)) \<noteq> Inr ()"
    using w w' by simp_all
  have e1: "handleDelete (\<lambda>k. Resolves ()) algebra ''Wrong Title'' example_state =
      example_state\<lparr>shown := shown example_state @ [''E009'']\<rparr>"
    using a(1) handleDelete_confirmation [of "''Wrong Title''" algebra "\<lambda>k. Resolves ()" example_state]
    by blast
  have e2: "notesData (handleDelete (\<lambda>k. Resolves ()) algebra ''Algebra'' example_state) =
        filter (\<lambda>n. note_id n \<noteq> note_id algebra) (notesData example_state)
      \<and> localStorage (handleDelete (\<lambda>k. Resolves ()) algebra ''Algebra'' example_state) STORAGE_KEY =
        Some (JSON_stringify (filter (\<lambda>n. note_id n \<noteq> note_id algebra) (notesData example_state)))"
    using a(2) ok handleDelete_confirmation [of "''Algebra''" algebra "\<lambda>k. Resolves ()" example_state]
    by blast
  have e3: "notesData (handleDelete (\<lambda>k. Rejects denied) algebra ''Algebra'' example_state) =
      notesData example_state"
    using a(2) ko handleDelete_confirmation [of "''Algebra''" algebra "\<lambda>k. Rejects denied" example_state]
    by blast
  have e4: "sent (handleDelete (\<lambda>k. Resolves ()) algebra ''Algebra'' blocked_state) = sent blocked_state
      \<and> notesData (handleDelete (\<lambda>k. Resolves ()) algebra ''Algebra'' blocked_state) =
        notesData blocked_state"
    using a(2,5) handleDelete_confirmation [of "''Algebra''" algebra "\<lambda>k. Resolves ()" blocked_state]
    by blast
  have ids: "note_id geometry \<noteq> note_id algebra"
    by (simp add: algebra_def geometry_def)
  show ?thesis
    using a ok ko s e1 e2 e3 e4 by (simp add: ids)
qed

text \<open>
  The claim as stated fails while the circuit breaker is set: with the right title
  confirmed, no delete request is sent; \<open>handleDelete\<close> shows E011 and E006 and the note
  stays in the collection.
\<close>

theorem handleDelete_blocked_counterexample:
  "trim ''Algebra'' = Title algebra \<and> retryBlocked blocked_state \<and>
   handleDelete (\<lambda>k. Resolves ()) algebra ''Algebra'' blocked_state =
     blocked_state\<lparr>shown := [''E011'', ''E006'']\<rparr> \<and>
   sent (handleDelete (\<lambda>k. Resolves ()) algebra ''Algebra'' blocked_state) = [] \<and>
   notesData (handleDelete (\<lambda>k. Resolves ()) algebra ''Algebra'' blocked_state) =
     [algebra, geometry]"
  by (simp add: handleDelete_def withRetry.simps Let_def blocked_state_def algebra_def geometry_def example_state_def initial_state_def saveToLocalStorage_def
        showError_def showLoading_def hideLoading_def trim_def is_js_space_def)

section \<open>Editing keeps a note's identity: \<open>handleEdit\<close>\<close>

text \<open>
  Claim C9. Whatever the outcome of \<open>handleEdit\<close>, the in-memory collection keeps its
  length, and at every index the note keeps its id, its \<open>Date\<close>, its \<open>MissCount\<close> and its
  \<open>uid\<close>: the note is either unchanged or the old note with its title, question, answer
  and explanation replaced by the trimmed inputs.
\<close>

theorem handleEdit_frame:
  "length (notesData (handleEdit updateDoc note f s)) = length (notesData s) \<and>
   (\<forall>i < length (notesData s).
      note_id (notesData (handleEdit updateDoc note f s) ! i) = note_id (notesData s ! i) \<and>
      Date (notesData (handleEdit updateDoc note f s) ! i) = Date (notesData s ! i) \<and>
      MissCount (notesData (handleEdit updateDoc note f s) ! i) = MissCount (notesData s ! i) \<and>
      uid (notesData (handleEdit updateDoc note f s) ! i) = uid (notesData s ! i) \<and>
      (notesData (handleEdit updateDoc note f s) ! i = notesData s ! i \<or>
       notesData (handleEdit updateDoc note f s) ! i = edited f (notesData s ! i)))"
proof -
  have a: "length (notesData (handleEdit updateDoc note f s)) = length (notesData s)"
    by (simp add: handleEdit_notesData split: option.splits)
  have b: "notesData (handleEdit updateDoc note f s) ! i = notesData s ! i \<or>
       notesData (handleEdit updateDoc note f s) ! i = edited f (notesData s ! i)"
    if "i < length (notesData s)" for i
  proof (cases "findIndex (\<lambda>n. note_id n = note_id note) (notesData s)")
    case None
    then show ?thesis by (simp add: handleEdit_notesData)
  next
    case (Some k)
    from findIndex_Some [OF Some] have "k < length (notesData s)" by simp
    then show ?thesis
      by (cases "k = i") (simp_all add: handleEdit_notesData Some)
  qed
  have c: "note_id (edited f n) = note_id n \<and> Date (edited f n) = Date n
      \<and> MissCount (edited f n) = MissCount n \<and> uid (edited f n) = uid n" for n
    by (simp add: edited_def)
  show ?thesis
    using a b c by metis
qed

theorem handleEdit_frame_witness:
  "0 < length (notesData example_state) \<and>
   notesData (handleEdit (\<lambda>k. Resolves ()) algebra example_form example_state) ! 0 =
     \<lparr>Title = ''Algebra'', Question = ''3 + 3'', Answer = ''6'', Explain = [],
      Date = ''2024-01-01T00:00:00.000Z'', MissCount = 0, uid = ''u1'', note_id = ''n1''\<rparr> \<and>
   notesData (handleEdit (\<lambda>k. Resolves ()) algebra example_form example_state) ! 0 =
     edited example_form (notesData example_state ! 0) \<and>
   note_id (notesData (handleEdit (\<lambda>k. Resolves ()) algebra example_form example_state) ! 0) =
     note_id (notesData example_state ! 0)"
proof -
  have a: "0 < length (notesData example_state)"
    by (simp add: example_state_def saveToLocalStorage_def initial_state_def)
  have w: "withRetry (UpdateDoc ''n1'' (EditPatch ''Algebra'' ''3 + 3'' ''6'' [])) (\<lambda>k. Resolves ()) 0
             (showLoading example_state) =
           (Inr (), (showLoading example_state)
              \<lparr>sent := [UpdateDoc ''n1'' (EditPatch ''Algebra'' ''3 + 3'' ''6'' [])]\<rparr>)"
    by (simp add: withRetry.simps example_state_def saveToLocalStorage_def initial_state_def
        showLoading_def)
  have e: "notesData (handleEdit (\<lambda>k. Resolves ()) algebra example_form example_state) =
     [\<lparr>Title = ''Algebra'', Question = ''3 + 3'', Answer = ''6'', Explain = [],
      Date = ''2024-01-01T00:00:00.000Z'', MissCount = 0, uid = ''u1'', note_id = ''n1''\<rparr>, geometry]"
    using w
    by (simp add: handleEdit_def algebra_def geometry_def example_state_def initial_state_def saveToLocalStorage_def
        showError_def showLoading_def hideLoading_def trim_def is_js_space_def example_form_def Let_def TITLE_MAX_LENGTH_def CONTENT_MAX_LENGTH_def)
  have d: "edited example_form (notesData example_state ! 0) =
     \<lparr>Title = ''Algebra'', Question = ''3 + 3'', Answer = ''6'', Explain = [],
      Date = ''2024-01-01T00:00:00.000Z'', MissCount = 0, uid = ''u1'', note_id = ''n1''\<rparr>"
    by (simp add: edited_def algebra_def geometry_def example_state_def initial_state_def saveToLocalStorage_def
        showError_def showLoading_def hideLoading_def trim_def is_js_space_def example_form_def)
  have f: "note_id (notesData (handleEdit (\<lambda>k. Resolves ()) algebra example_form example_state) ! 0) =
     note_id (notesData example_state ! 0)"
    using a handleEdit_frame [of "\<lambda>k. Resolves ()" algebra example_form example_state]
    by blast
  show ?thesis
    using a f by (simp add: e d)
qed

section \<open>Marking a miss: \<open>handleMissMark\<close>\<close>

text \<open>
  Claim C8. While \<open>missMarkUsed\<close> is set, \<open>handleMissMark\<close> does nothing. With the guard
  clear, every request it sends is the update of the note's \<open>MissCount\<close> to the sum of its
  count and one as JavaScript computes it. If that update succeeds, the guard is set, so
  that a second call (for any note) changes nothing; and when the displayed note is the
  in-memory record of its id, that record holds the new count and the mirror holds the
  serialisation of the new collection. For a count of magnitude below \<open>2^53\<close>, the range in
  which a JavaScript number counts exactly, the sum is exact: the update sent, the
  in-memory record and the mirror all carry the count plus one, and the record's count has
  gone up by exactly one. If the update fails, the guard is released again and the
  collection and the mirror are unchanged.
  Displaying a problem in \<open>renderRandomPage\<close> clears the guard; the displayed note is a
  note of the collection, and with distinct ids it is the in-memory record of its id.
\<close>

theorem handleMissMark_one_shot:
  "(missMarkUsed s \<longrightarrow> handleMissMark updateDoc note s = s)
   \<and> (\<not> missMarkUsed s \<longrightarrow>
          (\<exists>k. sent (handleMissMark updateDoc note s) =
                 sent s @ replicate k (UpdateDoc (note_id note) (MissPatch (js_add (MissCount note) 1)))
               \<and> (\<not> retryBlocked s \<longrightarrow> 0 < k)))
   \<and> (\<not> missMarkUsed s
        \<and> fst (withRetry (UpdateDoc (note_id note) (MissPatch (js_add (MissCount note) 1))) updateDoc 0
                 (s\<lparr>missMarkUsed := True\<rparr>)) = Inr () \<longrightarrow>
          missMarkUsed (handleMissMark updateDoc note s)
        \<and> handleMissMark updateDoc' note' (handleMissMark updateDoc note s) =
            handleMissMark updateDoc note s
        \<and> (\<forall>i. findIndex (\<lambda>n. note_id n = note_id note) (notesData s) = Some i
                 \<and> notesData s ! i = note \<longrightarrow>
               notesData (handleMissMark updateDoc note s) =
                 (notesData s)[i := note\<lparr>MissCount := js_add (MissCount note) 1\<rparr>]
             \<and> localStorage (handleMissMark updateDoc note s) STORAGE_KEY =
                 Some (JSON_stringify
                         ((notesData s)[i := note\<lparr>MissCount := js_add (MissCount note) 1\<rparr>]))))
   \<and> (\<not> missMarkUsed s \<and> \<bar>MissCount note\<bar> < 2 ^ 53
        \<and> fst (withRetry (UpdateDoc (note_id note) (MissPatch (MissCount note + 1))) updateDoc 0
                 (s\<lparr>missMarkUsed := True\<rparr>)) = Inr () \<longrightarrow>
          (\<exists>k. 0 < k \<and> sent (handleMissMark updateDoc note s) =
                 sent s @ replicate k (UpdateDoc (note_id note) (MissPatch (MissCount note + 1))))
        \<and> (\<forall>i. findIndex (\<lambda>n. note_id n = note_id note) (notesData s) = Some i
                 \<and> notesData s ! i = note \<longrightarrow>
               notesData (handleMissMark updateDoc note s) =
                 (notesData s)[i := note\<lparr>MissCount := MissCount note + 1\<rparr>]
             \<and> MissCount (notesData (handleMissMark updateDoc note s) ! i) =
                 MissCount (notesData s ! i) + 1
             \<and> localStorage (handleMissMark updateDoc note s) STORAGE_KEY =
                 Some (JSON_stringify ((notesData s)[i := note\<lparr>MissCount := MissCount note + 1\<rparr>]))))
   \<and> (\<not> missMarkUsed s
        \<and> fst (withRetry (UpdateDoc (note_id note) (MissPatch (js_add (MissCount note) 1))) updateDoc 0
                 (s\<lparr>missMarkUsed := True\<rparr>)) \<noteq> Inr () \<longrightarrow>
          \<not> missMarkUsed (handleMissMark updateDoc note s)
        \<and> notesData (handleMissMark updateDoc note s) = notesData s
        \<and> localStorage (handleMissMark updateDoc note s) = localStorage s)
   \<and> (\<forall>draws n s'. renderRandomPage draws s = Some (ProblemPage n, s') \<longrightarrow>
          \<not> missMarkUsed s' \<and> currentProblemId s' = Some (note_id n) \<and> notesData s' = notesData s
        \<and> n \<in> set (notesData s)
        \<and> (distinct (map note_id (notesData s)) \<longrightarrow>
             (\<exists>i. findIndex (\<lambda>m. note_id m = note_id n) (notesData s') = Some i
                  \<and> notesData s' ! i = n)))"
proof -
  let ?c = "js_add (MissCount note) 1"
  let ?req = "UpdateDoc (note_id note) (MissPatch ?c)"
  let ?s0 = "s\<lparr>missMarkUsed := True\<rparr>"
  have new: "js_add (if MissCount note = 0 then 0 else MissCount note) 1 = ?c"
    by simp
  obtain r s1 where w: "withRetry ?req updateDoc 0 ?s0 = (r, s1)"
    by (cases "withRetry ?req updateDoc 0 ?s0")
  have fr: "notesData s1 = notesData s" "localStorage s1 = localStorage s" "missMarkUsed s1"
    using withRetry_frame [of ?req updateDoc 0 ?s0] w by simp_all
  have guard: "missMarkUsed s \<Longrightarrow> handleMissMark updateDoc note s = s"
    by (simp add: handleMissMark_def)
  have ok_used: "missMarkUsed (handleMissMark updateDoc note s)"
    if "\<not> missMarkUsed s" "r = Inr ()"
    using that w fr
    by (simp add: handleMissMark_def new Let_def saveToLocalStorage_def split: option.splits)
  have ok_sent: "\<exists>k. 0 < k \<and> sent (handleMissMark updateDoc note s) = sent s @ replicate k ?req"
    if "\<not> missMarkUsed s" "r = Inr ()"
  proof -
    have nb: "\<not> retryBlocked ?s0"
      using withRetry_success [of ?req updateDoc 0 ?s0 "()"] w that by simp
    obtain k where "sent s1 = sent s @ replicate k ?req" "0 < k"
      using withRetry_sent [of ?req updateDoc 0 ?s0] w nb by auto
    moreover have "sent (handleMissMark updateDoc note s) = sent s1"
      using that w
      by (simp add: handleMissMark_def new Let_def saveToLocalStorage_def split: option.splits)
    ultimately show ?thesis by auto
  qed
  have ok_data: "notesData (handleMissMark updateDoc note s) =
                 (notesData s)[i := note\<lparr>MissCount := ?c\<rparr>]
             \<and> MissCount (notesData (handleMissMark updateDoc note s) ! i) = ?c
             \<and> localStorage (handleMissMark updateDoc note s) STORAGE_KEY =
                 Some (JSON_stringify ((notesData s)[i := note\<lparr>MissCount := ?c\<rparr>]))"
    if "\<not> missMarkUsed s" "r = Inr ()"
      and fi: "findIndex (\<lambda>n. note_id n = note_id note) (notesData s) = Some i"
      and same: "notesData s ! i = note" for i
  proof -
    from findIndex_Some [OF fi] have "i < length (notesData s)" by simp
    then show ?thesis
      using that w fr
      by (simp add: handleMissMark_def new Let_def saveToLocalStorage_def)
  qed
  have ko: "\<not> missMarkUsed (handleMissMark updateDoc note s)
        \<and> notesData (handleMissMark updateDoc note s) = notesData s
        \<and> localStorage (handleMissMark updateDoc note s) = localStorage s"
    if "\<not> missMarkUsed s" "r \<noteq> Inr ()"
    using that w fr
    by (auto simp add: handleMissMark_def new Let_def showError_def split: sum.splits)
  have any_sent: "\<exists>k. sent (handleMissMark updateDoc note s) = sent s @ replicate k ?req
                      \<and> (\<not> retryBlocked s \<longrightarrow> 0 < k)"
    if "\<not> missMarkUsed s"
  proof -
    obtain k where "sent s1 = sent s @ replicate k ?req" "\<not> retryBlocked s \<longrightarrow> 0 < k"
      using withRetry_sent [of ?req updateDoc 0 ?s0] w by auto
    moreover have "sent (handleMissMark updateDoc note s) = sent s1"
      using that w
      by (auto simp add: handleMissMark_def new Let_def saveToLocalStorage_def showError_def
          split: option.splits sum.splits)
    ultimately show ?thesis by auto
  qed
  have render: "\<not> missMarkUsed s' \<and> currentProblemId s' = Some (note_id n) \<and> notesData s' = notesData s
        \<and> n \<in> set (notesData s)
        \<and> (distinct (map note_id (notesData s)) \<longrightarrow>
             (\<exists>i. findIndex (\<lambda>m. note_id m = note_id n) (notesData s') = Some i
                  \<and> notesData s' ! i = n))"
    if "renderRandomPage draws s = Some (ProblemPage n, s')" for draws n s'
    using renderRandomPage_problem [OF that] findIndex_distinct [of "notesData s" n]
    by simp
  have again: "handleMissMark updateDoc' note' (handleMissMark updateDoc note s) =
            handleMissMark updateDoc note s"
    if "\<not> missMarkUsed s" "r = Inr ()"
    using ok_used [OF that] by (simp add: handleMissMark_def)
  have general: "(\<not> missMarkUsed s \<and> r = Inr () \<longrightarrow>
          missMarkUsed (handleMissMark updateDoc note s)
        \<and> handleMissMark updateDoc' note' (handleMissMark updateDoc note s) =
            handleMissMark updateDoc note s
        \<and> (\<forall>i. findIndex (\<lambda>n. note_id n = note_id note) (notesData s) = Some i
                 \<and> notesData s ! i = note \<longrightarrow>
               notesData (handleMissMark updateDoc note s) =
                 (notesData s)[i := note\<lparr>MissCount := ?c\<rparr>]
             \<and> localStorage (handleMissMark updateDoc note s) STORAGE_KEY =
                 Some (JSON_stringify ((notesData s)[i := note\<lparr>MissCount := ?c\<rparr>]))))"
    using ok_used again ok_data by blast
  have exact: "(\<exists>k. 0 < k \<and> sent (handleMissMark updateDoc note s) =
                 sent s @ replicate k (UpdateDoc (note_id note) (MissPatch (MissCount note + 1))))
        \<and> (\<forall>i. findIndex (\<lambda>n. note_id n = note_id note) (notesData s) = Some i
                 \<and> notesData s ! i = note \<longrightarrow>
               notesData (handleMissMark updateDoc note s) =
                 (notesData s)[i := note\<lparr>MissCount := MissCount note + 1\<rparr>]
             \<and> MissCount (notesData (handleMissMark updateDoc note s) ! i) =
                 MissCount (notesData s ! i) + 1
             \<and> localStorage (handleMissMark updateDoc note s) STORAGE_KEY =
                 Some (JSON_stringify ((notesData s)[i := note\<lparr>MissCount := MissCount note + 1\<rparr>])))"
    if nu: "\<not> missMarkUsed s" and bound: "\<bar>MissCount note\<bar> < 2 ^ 53"
      and ok: "fst (withRetry (UpdateDoc (note_id note) (MissPatch (MissCount note + 1))) updateDoc 0
                 ?s0) = Inr ()"
  proof -
    have c: "?c = MissCount note + 1"
      using bound by (rule js_add_exact)
    have r: "r = Inr ()"
      using ok w unfolding c by simp
    show ?thesis
      using ok_sent [OF nu r] ok_data [OF nu r] unfolding c by auto
  qed
  show ?thesis
    using guard general ko render any_sent exact w
    by (simp only: fst_conv) blast
qed

text \<open>
  On the example: the first note is displayed and marked (its count goes from 0 to 1), a
  second mark changes nothing, a failed mark releases the guard, and after the next
  display the second note is marked (its count goes from 2 to 3).
\<close>

theorem handleMissMark_one_shot_witness:
  "renderRandomPage [0] example_state = Some (ProblemPage algebra, drill_state) \<and>
   \<not> missMarkUsed drill_state \<and> \<bar>MissCount algebra\<bar> < 2 ^ 53 \<and>
   fst (withRetry (UpdateDoc (note_id algebra) (MissPatch (MissCount algebra + 1)))
          (\<lambda>k. Resolves ()) 0 (drill_state\<lparr>missMarkUsed := True\<rparr>)) = Inr () \<and>
   fst (withRetry (UpdateDoc (note_id algebra) (MissPatch (js_add (MissCount algebra) 1)))
          (\<lambda>k. Resolves ()) 0 (drill_state\<lparr>missMarkUsed := True\<rparr>)) = Inr () \<and>
   findIndex (\<lambda>n. note_id n = note_id algebra) (notesData drill_state) = Some 0 \<and>
   notesData drill_state ! 0 = algebra \<and>
   notesData (handleMissMark (\<lambda>k. Resolves ()) algebra drill_state) =
     [algebra\<lparr>MissCount := 1\<rparr>, geometry] \<and>
   MissCount (notesData (handleMissMark (\<lambda>k. Resolves ()) algebra drill_state) ! 0) =
     MissCount (notesData drill_state ! 0) + 1 \<and>
   sent (handleMissMark (\<lambda>k. Resolves ()) algebra drill_state) = [UpdateDoc ''n1'' (MissPatch 1)] \<and>
   localStorage (handleMissMark (\<lambda>k. Resolves ()) algebra drill_state) STORAGE_KEY =
     Some (JSON_stringify [algebra\<lparr>MissCount := 1\<rparr>, geometry]) \<and>
   missMarkUsed (handleMissMark (\<lambda>k. Resolves ()) algebra drill_state) \<and>
   handleMissMark (\<lambda>k. Resolves ()) algebra (handleMissMark (\<lambda>k. Resolves ()) algebra drill_state) =
     handleMissMark (\<lambda>k. Resolves ()) algebra drill_state \<and>
   fst (withRetry (UpdateDoc (note_id algebra) (MissPatch (js_add (MissCount algebra) 1)))
          (\<lambda>k. Rejects denied :: unit outcome) 0 (drill_state\<lparr>missMarkUsed := True\<rparr>)) \<noteq> Inr () \<and>
   \<not> missMarkUsed (handleMissMark (\<lambda>k. Rejects denied) algebra drill_state) \<and>
   notesData (handleMissMark (\<lambda>k. Rejects denied) algebra drill_state) = [algebra, geometry] \<and>
   renderRandomPage [0] (handleMissMark (\<lambda>k. Resolves ()) algebra drill_state) =
     Some (ProblemPage geometry,
           (handleMissMark (\<lambda>k. Resolves ()) algebra drill_state)
             \<lparr>currentProblemId := Some ''n2'', usedProblemIds := [''n1'', ''n2''],
              missMarkUsed := False\<rparr>) \<and>
   notesData (handleMissMark (\<lambda>k. Resolves ()) geometry
       ((handleMissMark (\<lambda>k. Resolves ()) algebra drill_state)
             \<lparr>currentProblemId := Some ''n2'', usedProblemIds := [''n1'', ''n2''],
              missMarkUsed := False\<rparr>)) =
     [algebra\<lparr>MissCount := 1\<rparr>, geometry\<lparr>MissCount := 3\<rparr>]"
proof -
  have sums: "js_add 0 1 = 1" "js_add 2 1 = 3"
    using js_add_exact [of 0] js_add_exact [of 2] by simp_all
  have next_display:
    "renderRandomPage [0] (handleMissMark (\<lambda>k. Resolves ()) algebra drill_state) =
       Some (ProblemPage geometry,
             (handleMissMark (\<lambda>k. Resolves ()) algebra drill_state)
               \<lparr>currentProblemId := Some ''n2'', usedProblemIds := [''n1'', ''n2''],
                missMarkUsed := False\<rparr>) \<and>
     notesData (handleMissMark (\<lambda>k. Resolves ()) geometry
         ((handleMissMark (\<lambda>k. Resolves ()) algebra drill_state)
               \<lparr>currentProblemId := Some ''n2'', usedProblemIds := [''n1'', ''n2''],
                missMarkUsed := False\<rparr>)) =
       [algebra\<lparr>MissCount := 1\<rparr>, geometry\<lparr>MissCount := 3\<rparr>]"
    by (simp add: handleMissMark_def renderRandomPage_def withRetry.simps Let_def
        drill_state_def algebra_def geometry_def example_state_def initial_state_def
        saveToLocalStorage_def sums)
  have r: "renderRandomPage [0] example_state = Some (ProblemPage algebra, drill_state)"
    by (simp add: renderRandomPage_def drill_state_def algebra_def geometry_def example_state_def initial_state_def saveToLocalStorage_def
        showError_def showLoading_def hideLoading_def trim_def is_js_space_def denied_def Let_def)
  have g: "\<not> missMarkUsed drill_state" "notesData drill_state = [algebra, geometry]"
    "findIndex (\<lambda>n. note_id n = note_id algebra) (notesData drill_state) = Some 0"
    "notesData drill_state ! 0 = algebra"
    by (simp_all add: drill_state_def algebra_def geometry_def example_state_def initial_state_def saveToLocalStorage_def
        showError_def showLoading_def hideLoading_def trim_def is_js_space_def denied_def)
  have v: "note_id algebra = ''n1''" "MissCount algebra + 1 = 1" "js_add (MissCount algebra) 1 = 1"
    "\<bar>MissCount algebra\<bar> < 2 ^ 53" "MissCount algebra = 0"
    by (simp_all add: algebra_def sums)
  have w: "withRetry (UpdateDoc ''n1'' (MissPatch 1)) (\<lambda>k. Resolves ()) 0
             (drill_state\<lparr>missMarkUsed := True\<rparr>) =
           (Inr (), drill_state\<lparr>missMarkUsed := True, sent := [UpdateDoc ''n1'' (MissPatch 1)]\<rparr>)"
    by (simp add: withRetry.simps drill_state_def algebra_def geometry_def example_state_def initial_state_def saveToLocalStorage_def
        showError_def showLoading_def hideLoading_def trim_def is_js_space_def denied_def)
  have w': "withRetry (UpdateDoc ''n1'' (MissPatch 1)) (\<lambda>k. Rejects denied :: unit outcome) 0
             (drill_state\<lparr>missMarkUsed := True\<rparr>) =
           (Inl denied, drill_state\<lparr>missMarkUsed := True, sent := [UpdateDoc ''n1'' (MissPatch 1)]\<rparr>)"
    by (simp add: withRetry.simps drill_state_def algebra_def geometry_def example_state_def initial_state_def saveToLocalStorage_def
        showError_def showLoading_def hideLoading_def trim_def is_js_space_def denied_def MAX_RETRY_def)
  have s: "sent (handleMissMark (\<lambda>k. Resolves ()) algebra drill_state) = [UpdateDoc ''n1'' (MissPatch 1)]"
    using g(1,3) w by (simp add: handleMissMark_def v g(2) sums Let_def saveToLocalStorage_def)
  have u: "[algebra, geometry][0 := algebra\<lparr>MissCount := 1\<rparr>] = [algebra\<lparr>MissCount := 1\<rparr>, geometry]"
    by simp
  show ?thesis
    using r g w w' s u next_display
      handleMissMark_one_shot [of drill_state "\<lambda>k. Resolves ()" algebra "\<lambda>k. Resolves ()" algebra]
      handleMissMark_one_shot [of drill_state "\<lambda>k. Rejects denied" algebra "\<lambda>k. Resolves ()" algebra]
    by (simp add: v sums)
qed

end
